theory Spec2Isabelle
  imports Main
begin

section \<open>Python values and exceptions\<close>

text \<open>
  The exceptions that the modelled functions of \<^verbatim>\<open>brokkr/logger.py\<close> can raise or catch
  (\<open>QueueEmpty\<close> is \<^verbatim>\<open>queue.Empty\<close>). A function that can raise returns
  \<open>py_error + 'a\<close>, with \<open>Inl\<close> for the exception.
\<close>

datatype py_error =
    KeyError
  | ValueError
  | TypeError
  | AttributeError
  | AssertionError
  | StopIteration
  | QueueEmpty
  | InterruptedError
  | FileExistsError
  | NotADirectoryError

section \<open>Severity mapper\<close>

text \<open>The numeric values of the standard levels of Python's \<^verbatim>\<open>logging\<close> module.\<close>

definition CRITICAL :: int where "CRITICAL = 50"
definition ERROR :: int where "ERROR = 40"
definition WARNING :: int where "WARNING = 30"
definition INFO :: int where "INFO = 20"
definition DEBUG :: int where "DEBUG = 10"
definition NOTSET :: int where "NOTSET = 0"

definition MAX_VERBOSE :: int where "MAX_VERBOSE = 3"
definition MIN_VERBOSE :: int where "MIN_VERBOSE = - 3"

text \<open>The dictionary \<^verbatim>\<open>LOG_LEVEL\<close>, in the order it is written.\<close>

definition LOG_LEVEL_items :: "(int \<times> int) list" where
  "LOG_LEVEL_items =
     [(- 3, 99), (- 2, CRITICAL), (- 1, ERROR), (0, WARNING), (1, INFO), (2, DEBUG), (3, 2)]"

definition LOG_LEVEL :: "int \<rightharpoonup> int" where
  "LOG_LEVEL = map_of LOG_LEVEL_items"

text \<open>Subscripting a dictionary raises \<^verbatim>\<open>KeyError\<close> on a missing key.\<close>

definition getitem :: "('k \<rightharpoonup> 'v) \<Rightarrow> 'k \<Rightarrow> py_error + 'v" where
  "getitem d k = (case d k of None \<Rightarrow> Inl KeyError | Some v \<Rightarrow> Inr v)"

text \<open>\<^verbatim>\<open>round(verbose)\<close>: the verbosity is an integer here, and rounding a Python
  integer gives that integer.\<close>

definition round_int :: "int \<Rightarrow> int" where
  "round_int v = v"

definition determine_log_level :: "int \<Rightarrow> py_error + int" where
  "determine_log_level verbose0 =
     (let verbose = round_int verbose0 in
      if verbose > MAX_VERBOSE then getitem LOG_LEVEL MAX_VERBOSE
      else if verbose < MIN_VERBOSE then getitem LOG_LEVEL MIN_VERBOSE
      else getitem LOG_LEVEL verbose)"

text \<open>A threshold disables all emission when it lies above the most severe standard
  level; the table's most permissive threshold is the one below every standard level.\<close>

definition above_all_standard_levels :: "int \<Rightarrow> bool" where
  "above_all_standard_levels t = (CRITICAL < t)"

section \<open>Handler configuration renderer\<close>

subsection \<open>Paths and the file system\<close>

text \<open>
  A \<^verbatim>\<open>pathlib\<close> path on a POSIX system: whether it is anchored at the root, and its
  components. \<open>Path\<close> parses a string: it splits at \<^verbatim>\<open>/\<close> and drops empty and \<^verbatim>\<open>.\<close>
  components. (A path starting with exactly two slashes keeps a root of its own in
  \<^verbatim>\<open>pathlib\<close>; that case is outside the model.)
\<close>

record path =
  absolute :: bool
  parts :: "string list"

fun split_sep :: "char \<Rightarrow> string \<Rightarrow> string list" where
  "split_sep sep [] = [[]]"
| "split_sep sep (c # cs) =
     (if c = sep then [] # split_sep sep cs
      else (case split_sep sep cs of
              [] \<Rightarrow> [[c]]
            | w # ws \<Rightarrow> (c # w) # ws))"

definition Path :: "string \<Rightarrow> path" where
  "Path s =
     \<lparr>absolute = (case s of [] \<Rightarrow> False | c # _ \<Rightarrow> c = CHR ''/''),
      parts = filter (\<lambda>w. w \<noteq> [] \<and> w \<noteq> ''.'') (split_sep CHR ''/'' s)\<rparr>"

definition is_absolute :: "path \<Rightarrow> bool" where
  "is_absolute p = absolute p"

text \<open>The operator \<^verbatim>\<open>/\<close> on paths: an absolute right operand replaces the left one.\<close>

definition joinpath :: "path \<Rightarrow> path \<Rightarrow> path" where
  "joinpath a b = (if absolute b then b else \<lparr>absolute = absolute a, parts = parts a @ parts b\<rparr>)"

definition parent :: "path \<Rightarrow> path" where
  "parent p = p\<lparr>parts := butlast (parts p)\<rparr>"

text \<open>
  The file system, as far as \<^verbatim>\<open>os.makedirs\<close> sees it: the directories and the regular
  files that exist. The root and the working directory (paths with no component) always
  exist. \<open>lineage p\<close> lists the directories \<^verbatim>\<open>os.makedirs(p)\<close> has to find or create,
  outermost first.
\<close>

record filesystem =
  dirs :: "path set"
  files :: "path set"

fun leading_parts :: "'a list \<Rightarrow> 'a list list" where
  "leading_parts [] = []"
| "leading_parts (x # xs) = [x] # map ((#) x) (leading_parts xs)"

definition lineage :: "path \<Rightarrow> path list" where
  "lineage p = map (\<lambda>ps. p\<lparr>parts := ps\<rparr>) (leading_parts (parts p))"

definition is_dir :: "filesystem \<Rightarrow> path \<Rightarrow> bool" where
  "is_dir fs p = (parts p = [] \<or> p \<in> dirs fs)"

text \<open>
  \<^verbatim>\<open>os.makedirs(p, exist_ok=True)\<close>: creates \<open>p\<close> and the missing directories above it,
  and accepts directories that exist. It raises when \<open>p\<close> exists as a regular file
  (\<^verbatim>\<open>FileExistsError\<close>) or a regular file stands where a directory above \<open>p\<close> should be
  (\<^verbatim>\<open>NotADirectoryError\<close>). Permissions are not modelled.
\<close>

definition makedirs :: "path \<Rightarrow> filesystem \<Rightarrow> py_error + filesystem" where
  "makedirs p fs =
     (if \<exists>a \<in> set (lineage p). a \<in> files fs
      then Inl (if p \<in> files fs then FileExistsError else NotADirectoryError)
      else Inr (fs\<lparr>dirs := dirs fs \<union> set (lineage p)\<rparr>))"

subsection \<open>Values of the configuration dictionary\<close>

text \<open>
  The Python values that occur as levels and file names: \<^verbatim>\<open>None\<close>, an integer, a string,
  a path. \<open>truthy\<close> is Python's truth value of such a value.
\<close>

datatype pyval = PNone | PInt int | PStr string | PPath path

fun truthy :: "pyval \<Rightarrow> bool" where
  "truthy PNone = False"
| "truthy (PInt n) = (n \<noteq> 0)"
| "truthy (PStr s) = (s \<noteq> [])"
| "truthy (PPath p) = True"

text \<open>
  The routing configuration: \<^verbatim>\<open>log_config["handlers"]\<close> is a dictionary from handler names
  to handler dictionaries, kept in insertion order; of a handler dictionary the keys
  \<^verbatim>\<open>"level"\<close> and \<^verbatim>\<open>"filename"\<close> matter here (\<open>None\<close> is an absent key).
  \<^verbatim>\<open>log_config["root"]\<close> has the keys \<^verbatim>\<open>"level"\<close> and \<^verbatim>\<open>"handlers"\<close>.
\<close>

record handler_config =
  level :: "pyval option"
  filename :: "pyval option"

record log_config =
  handlers :: "(string \<times> handler_config) list"
  root_level :: "pyval option"
  root_handlers :: "string list"

subsection \<open>Level overrides\<close>

text \<open>\<^verbatim>\<open>str.upper\<close>, on the letters of ASCII.\<close>

definition upper_char :: "char \<Rightarrow> char" where
  "upper_char c =
     (case map_of (zip ''abcdefghijklmnopqrstuvwxyz'' ''ABCDEFGHIJKLMNOPQRSTUVWXYZ'') c of
        Some u \<Rightarrow> u
      | None \<Rightarrow> c)"

text \<open>\<^verbatim>\<open>level.upper() if isinstance(level, str) else level\<close>\<close>

definition upper_level :: "pyval \<Rightarrow> pyval" where
  "upper_level lvl = (case lvl of PStr s \<Rightarrow> PStr (map upper_char s) | _ \<Rightarrow> lvl)"

text \<open>
  The level names that are attributes of the \<^verbatim>\<open>logging\<close> module, with their values.
  The module's other attributes are not levels and are not modelled.
\<close>

definition logging_level_names :: "(string \<times> int) list" where
  "logging_level_names =
     [(''CRITICAL'', CRITICAL), (''FATAL'', CRITICAL), (''ERROR'', ERROR),
      (''WARNING'', WARNING), (''WARN'', WARNING), (''INFO'', INFO), (''DEBUG'', DEBUG),
      (''NOTSET'', NOTSET)]"

text \<open>
  \<^verbatim>\<open>int(s)\<close> of a string: an optional sign and decimal digits; anything else raises
  \<^verbatim>\<open>ValueError\<close>. (Python also accepts surrounding blanks and underscores between
  digits; these forms are outside the model.)
\<close>

definition digit_value :: "char \<Rightarrow> nat option" where
  "digit_value c = map_of (zip ''0123456789'' [0, 1, 2, 3, 4, 5, 6, 7, 8, 9]) c"

fun digits_value :: "nat \<Rightarrow> string \<Rightarrow> nat option" where
  "digits_value acc [] = Some acc"
| "digits_value acc (c # cs) =
     (case digit_value c of None \<Rightarrow> None | Some d \<Rightarrow> digits_value (10 * acc + d) cs)"

definition int_of_str :: "string \<Rightarrow> py_error + int" where
  "int_of_str s =
     (let (neg, ds) =
        (case s of
           [] \<Rightarrow> (False, [])
         | c # cs \<Rightarrow> if c = CHR ''-'' then (True, cs)
                     else if c = CHR ''+'' then (False, cs) else (False, s))
      in if ds = [] then Inl ValueError
         else case digits_value 0 ds of
                None \<Rightarrow> Inl ValueError
              | Some n \<Rightarrow> Inr (if neg then - int n else int n))"

text \<open>
  \<^verbatim>\<open>int(getattr(logging, str(level_name), level_name))\<close>: a level name of the module gives
  its number, an integer gives itself, any other string goes through \<^verbatim>\<open>int\<close>.
\<close>

definition level_value :: "pyval \<Rightarrow> py_error + int" where
  "level_value level_name =
     (case level_name of
        PInt n \<Rightarrow> Inr n
      | PStr s \<Rightarrow>
          (case map_of logging_level_names s of
             Some n \<Rightarrow> Inr n
           | None \<Rightarrow> int_of_str s)
      | PNone \<Rightarrow> Inl TypeError
      | PPath p \<Rightarrow> Inl TypeError)"

text \<open>The generator handed to \<^verbatim>\<open>min\<close>: the first level that fails to convert raises.\<close>

fun level_values :: "pyval list \<Rightarrow> py_error + int list" where
  "level_values [] = Inr []"
| "level_values (l # ls) =
     (case level_value l of
        Inl e \<Rightarrow> Inl e
      | Inr n \<Rightarrow> (case level_values ls of Inl e \<Rightarrow> Inl e | Inr ns \<Rightarrow> Inr (n # ns)))"

text \<open>\<^verbatim>\<open>min\<close> of a sequence; an empty one raises \<^verbatim>\<open>ValueError\<close>.\<close>

definition py_min :: "int list \<Rightarrow> py_error + int" where
  "py_min ns = (case ns of [] \<Rightarrow> Inl ValueError | n # ns' \<Rightarrow> Inr (fold min ns' n))"

definition update_handler ::
  "string \<Rightarrow> (handler_config \<Rightarrow> handler_config) \<Rightarrow> (string \<times> handler_config) list \<Rightarrow>
     (string \<times> handler_config) list" where
  "update_handler k f hs = map (\<lambda>(n, h). if n = k then (n, f h) else (n, h)) hs"

text \<open>
  The body of the loop over \<^verbatim>\<open>("file", file_level), ("console", console_level)\<close>:
  a truthy level is stored in the handler's dictionary (\<^verbatim>\<open>KeyError\<close> when the
  configuration has no such handler) and the handler is appended to the root's handler
  list unless it is there.
\<close>

definition set_handler_level :: "string \<Rightarrow> pyval \<Rightarrow> log_config \<Rightarrow> py_error + log_config" where
  "set_handler_level handler lvl cfg =
     (if truthy lvl then
        (case map_of (handlers cfg) handler of
           None \<Rightarrow> Inl KeyError
         | Some _ \<Rightarrow>
             (let cfg1 = cfg\<lparr>handlers :=
                           update_handler handler (\<lambda>h. h\<lparr>level := Some lvl\<rparr>) (handlers cfg)\<rparr>
              in Inr (if handler \<notin> set (root_handlers cfg1)
                      then cfg1\<lparr>root_handlers := root_handlers cfg1 @ [handler]\<rparr>
                      else cfg1)))
      else Inr cfg)"

text \<open>The filter of \<^verbatim>\<open>levels_tocheck\<close>: \<^verbatim>\<open>level == 0 or level\<close>.\<close>

definition supplied :: "pyval \<Rightarrow> bool" where
  "supplied lvl = (lvl = PInt 0 \<or> truthy lvl)"

definition setup_log_levels :: "log_config \<Rightarrow> pyval \<Rightarrow> pyval \<Rightarrow> py_error + log_config" where
  "setup_log_levels log_config file_level0 console_level0 =
     (let file_level = upper_level file_level0;
          console_level = upper_level console_level0
      in case set_handler_level ''file'' file_level log_config of
           Inl e \<Rightarrow> Inl e
         | Inr cfg1 \<Rightarrow>
             (case set_handler_level ''console'' console_level cfg1 of
                Inl e \<Rightarrow> Inl e
              | Inr cfg2 \<Rightarrow>
                  (case root_level cfg2 of
                     None \<Rightarrow> Inl KeyError
                   | Some rl \<Rightarrow>
                       (case level_values (filter supplied [file_level, console_level, rl]) of
                          Inl e \<Rightarrow> Inl e
                        | Inr ns \<Rightarrow>
                            (case py_min ns of
                               Inl e \<Rightarrow> Inl e
                             | Inr level_min \<Rightarrow>
                                 Inr (cfg2\<lparr>root_level := Some (PInt level_min)\<rparr>))))))"

subsection \<open>Handler paths\<close>

text \<open>
  \<^verbatim>\<open>str.format(**filename_args)\<close>. The scan of the template is modelled: \<^verbatim>\<open>{{\<close> and
  \<^verbatim>\<open>}}\<close> are literal braces, \<^verbatim>\<open>{field}\<close> is a replacement field, a lone brace raises
  \<^verbatim>\<open>ValueError\<close>. What a replacement field renders to is given by the map
  \<open>filename_args\<close>, from the text between the braces to the rendered text; a field with
  no entry raises \<^verbatim>\<open>KeyError\<close>. Errors surface from left to right.
\<close>

function format_str :: "(string \<rightharpoonup> string) \<Rightarrow> string \<Rightarrow> py_error + string" where
  "format_str args [] = Inr []"
| "format_str args (c # cs) =
     (if c = CHR ''{'' then
        (case cs of
           [] \<Rightarrow> Inl ValueError
         | c' # cs' \<Rightarrow>
             if c' = CHR ''{'' then map_sum id ((#) CHR ''{'') (format_str args cs')
             else
               (case dropWhile (\<lambda>x. x \<noteq> CHR ''}'') cs of
                  [] \<Rightarrow> Inl ValueError
                | _ # rest \<Rightarrow>
                    (case args (takeWhile (\<lambda>x. x \<noteq> CHR ''}'') cs) of
                       None \<Rightarrow> Inl KeyError
                     | Some v \<Rightarrow> map_sum id ((@) v) (format_str args rest))))
      else if c = CHR ''}'' then
        (case cs of
           [] \<Rightarrow> Inl ValueError
         | c' # cs' \<Rightarrow>
             if c' = CHR ''}'' then map_sum id ((#) CHR ''}'') (format_str args cs')
             else Inl ValueError)
      else map_sum id ((#) c) (format_str args cs))"
  by pat_completeness auto
termination
proof (relation "measure (\<lambda>(args, s). length s)", goal_cases)
  case 1
  show ?case by simp
next
  case (2 args c cs c' cs')
  then show ?case by simp
next
  case (3 args c cs c' cs' x rest v)
  have "length (dropWhile (\<lambda>x. x \<noteq> CHR ''}'') cs) \<le> length cs"
    by (rule length_dropWhile_le)
  with 3 show ?case by simp
next
  case (4 args c cs c' cs')
  then show ?case by simp
next
  case (5 args c cs)
  then show ?case by simp
qed

text \<open>
  \<^verbatim>\<open>if not log_filename.is_absolute() and output_path: log_filename = output_path / log_filename\<close>.
  The output path is a path or \<^verbatim>\<open>None\<close> (a path object is always truthy).
\<close>

definition anchor :: "path option \<Rightarrow> path \<Rightarrow> path" where
  "anchor output_path log_filename =
     (case output_path of
        Some out \<Rightarrow> if \<not> is_absolute log_filename then joinpath out log_filename
                    else log_filename
      | None \<Rightarrow> log_filename)"

text \<open>
  The body of the loop of \<^verbatim>\<open>setup_log_handler_paths\<close> for one handler dictionary.
  \<^verbatim>\<open>brokkr.utils.misc.convert_path\<close> is not among the sources: the conversion from the
  formatted file name to a path is the parameter \<open>convert_path\<close>. A truthy file name that
  is not a string has no method \<^verbatim>\<open>format\<close>.
\<close>

definition resolve_handler_path ::
  "(string \<Rightarrow> path) \<Rightarrow> path option \<Rightarrow> (string \<rightharpoonup> string) \<Rightarrow> handler_config \<Rightarrow> filesystem \<Rightarrow>
     py_error + (handler_config \<times> filesystem)" where
  "resolve_handler_path convert_path output_path filename_args log_handler fs =
     (case filename log_handler of
        None \<Rightarrow> Inr (log_handler, fs)
      | Some v \<Rightarrow>
          if \<not> truthy v then Inr (log_handler, fs)
          else
            (case v of
               PStr template \<Rightarrow>
                 (case format_str filename_args template of
                    Inl e \<Rightarrow> Inl e
                  | Inr s \<Rightarrow>
                      (let log_filename = anchor output_path (convert_path s)
                       in case makedirs (parent log_filename) fs of
                            Inl e \<Rightarrow> Inl e
                          | Inr fs' \<Rightarrow>
                              Inr (log_handler\<lparr>filename := Some (PPath log_filename)\<rparr>, fs')))
             | _ \<Rightarrow> Inl AttributeError))"

text \<open>The loop over \<^verbatim>\<open>log_config["handlers"].values()\<close>; an exception ends it.\<close>

fun resolve_handlers ::
  "(string \<Rightarrow> path) \<Rightarrow> path option \<Rightarrow> (string \<rightharpoonup> string) \<Rightarrow>
     (string \<times> handler_config) list \<Rightarrow> filesystem \<Rightarrow>
     py_error + ((string \<times> handler_config) list \<times> filesystem)" where
  "resolve_handlers conv out args [] fs = Inr ([], fs)"
| "resolve_handlers conv out args ((n, h) # hs) fs =
     (case resolve_handler_path conv out args h fs of
        Inl e \<Rightarrow> Inl e
      | Inr (h', fs1) \<Rightarrow>
          (case resolve_handlers conv out args hs fs1 of
             Inl e \<Rightarrow> Inl e
           | Inr (hs', fs2) \<Rightarrow> Inr ((n, h') # hs', fs2)))"

definition setup_log_handler_paths ::
  "(string \<Rightarrow> path) \<Rightarrow> log_config \<Rightarrow> path option \<Rightarrow> (string \<rightharpoonup> string) \<Rightarrow> filesystem \<Rightarrow>
     py_error + (log_config \<times> filesystem)" where
  "setup_log_handler_paths convert_path log_config output_path filename_args fs =
     (case resolve_handlers convert_path output_path filename_args (handlers log_config) fs of
        Inl e \<Rightarrow> Inl e
      | Inr (hs, fs') \<Rightarrow> Inr (log_config\<lparr>handlers := hs\<rparr>, fs'))"

text \<open>
  \<^verbatim>\<open>render_full_log_config\<close> works on a deep copy of its argument; the model's values are
  immutable, so the copy is the argument itself and the caller's configuration is never
  changed. \<^verbatim>\<open>any((log_level_file, log_level_console))\<close> is the truth value of either.
\<close>

definition render_full_log_config ::
  "(string \<Rightarrow> path) \<Rightarrow> log_config \<Rightarrow> pyval \<Rightarrow> pyval \<Rightarrow> path option \<Rightarrow> (string \<rightharpoonup> string) \<Rightarrow>
     filesystem \<Rightarrow> py_error + (log_config \<times> filesystem)" where
  "render_full_log_config convert_path log_config log_level_file log_level_console output_path
       filename_kwargs fs =
     (case setup_log_handler_paths convert_path log_config output_path filename_kwargs fs of
        Inl e \<Rightarrow> Inl e
      | Inr (cfg1, fs1) \<Rightarrow>
          if truthy log_level_file \<or> truthy log_level_console then
            (case setup_log_levels cfg1 log_level_file log_level_console of
               Inl e \<Rightarrow> Inl e
             | Inr cfg2 \<Rightarrow> Inr (cfg2, fs1))
          else Inr (cfg1, fs1))"

subsection \<open>What a resolved handler looks like\<close>

text \<open>
  \<open>resolvable\<close>: the loop body does not raise on this handler: its file name is absent
  or falsy, or it is a template that formats and no regular file stands in the way of
  the directories to create. \<open>handler_resolved\<close>: \<open>h'\<close> is \<open>h\<close> with its file name
  replaced by the anchored path, whose parent directory exists in \<open>fs'\<close> and can be
  created again without effect; a handler with no file name is unchanged.
\<close>

definition resolvable ::
  "(string \<Rightarrow> path) \<Rightarrow> path option \<Rightarrow> (string \<rightharpoonup> string) \<Rightarrow> filesystem \<Rightarrow>
     handler_config \<Rightarrow> bool" where
  "resolvable conv out args fs h =
     (case filename h of
        None \<Rightarrow> True
      | Some v \<Rightarrow>
          \<not> truthy v \<or>
          (case v of
             PStr t \<Rightarrow>
               (case format_str args t of
                  Inl e \<Rightarrow> False
                | Inr s \<Rightarrow> list_all (\<lambda>a. a \<notin> files fs) (lineage (parent (anchor out (conv s)))))
           | _ \<Rightarrow> False))"

definition handler_resolved ::
  "(string \<Rightarrow> path) \<Rightarrow> path option \<Rightarrow> (string \<rightharpoonup> string) \<Rightarrow> filesystem \<Rightarrow>
     handler_config \<Rightarrow> handler_config \<Rightarrow> bool" where
  "handler_resolved conv out args fs' h h' =
     (level h' = level h \<and>
      (case filename h of
         Some (PStr t) \<Rightarrow>
           if t = [] then h' = h
           else (\<exists>s. format_str args t = Inr s \<and>
                   filename h' = Some (PPath (anchor out (conv s))) \<and>
                   is_dir fs' (parent (anchor out (conv s))) \<and>
                   makedirs (parent (anchor out (conv s))) fs' = Inr fs')
       | _ \<Rightarrow> h' = h))"

section \<open>Log records\<close>

text \<open>
  A log record, with the attributes that matter here. What travels through the queue is a
  record, the sentinel \<^verbatim>\<open>LOG_RECORD_SENTINEL\<close> (a value distinct from every record), or
  some other object, which has no attribute \<^verbatim>\<open>name\<close>.
\<close>

record log_record =
  name :: string
  levelno :: int
  msg :: string

datatype item = LOG_RECORD_SENTINEL | Record log_record | NotARecord string

section \<open>Worker-side emitter setup\<close>











section \<open>Listener loop\<close>

subsection \<open>The queue\<close>

text \<open>
  The shared queue as the listener, its only consumer, sees it: the items in arrival
  order, whether it has been closed and its feeder thread joined, and whether it is a
  queue that can be closed at all (a \<^verbatim>\<open>multiprocessing\<close> queue has \<^verbatim>\<open>close\<close> and
  \<^verbatim>\<open>join_thread\<close>, a \<^verbatim>\<open>queue.Queue\<close> has neither). Producers are not part of the model:
  a blocking \<^verbatim>\<open>get\<close> with a timeout and a non-blocking \<^verbatim>\<open>get\<close> both take the first
  item, or raise \<^verbatim>\<open>queue.Empty\<close> when there is none; on a closed queue \<^verbatim>\<open>get\<close> raises
  \<^verbatim>\<open>ValueError\<close>.
\<close>

record log_queue =
  items :: "item list"
  closed :: bool
  joined :: bool
  has_close :: bool

definition queue_get :: "log_queue \<Rightarrow> (py_error + item) \<times> log_queue" where
  "queue_get q =
     (if closed q then (Inl ValueError, q)
      else case items q of
             [] \<Rightarrow> (Inl QueueEmpty, q)
           | x # xs \<Rightarrow> (Inr x, q\<lparr>items := xs\<rparr>))"

definition queue_close :: "log_queue \<Rightarrow> py_error + log_queue" where
  "queue_close q = (if has_close q then Inr (q\<lparr>closed := True\<rparr>) else Inl AttributeError)"

definition queue_join_thread :: "log_queue \<Rightarrow> py_error + log_queue" where
  "queue_join_thread q =
     (if \<not> has_close q then Inl AttributeError
      else if \<not> closed q then Inl AssertionError
      else Inr (q\<lparr>joined := True\<rparr>))"

subsection \<open>The listener's state and what it does\<close>

text \<open>
  What the listener does is recorded in a trace. \<open>Handle n r res\<close>: the logger named
  \<open>n\<close> was handed the record \<open>r\<close> (\<^verbatim>\<open>logging.getLogger(n).handle(r)\<close>), and \<open>res\<close> is the
  exception this raised, if any. \<open>Fallback lvl m\<close>: the listener's own logger
  (\<^verbatim>\<open>logging.getLogger(__name__)\<close>) logged the message \<open>m\<close> at level \<open>lvl\<close>.
\<close>

datatype fallback_msg =
    GettingFromQueue py_error
  | ErrorDetails
  | ShuttingDown
  | RecordPastShutdown item
  | CleaningUp py_error
  | ErrorInfo
  | ShutDown
  | LoggingRecord py_error item
  | LogRecordInfo item
  | Starting

datatype event =
    Handle string log_record "py_error option"
  | Fallback int fallback_msg

text \<open>
  The state: the queue, the argument \<^verbatim>\<open>outer_exit_event\<close> (\<open>None\<close> is Python's
  \<^verbatim>\<open>None\<close>, \<open>Some b\<close> an event object that is set or not), the trace, and whether
  \<^verbatim>\<open>logging.shutdown()\<close> has run. The destinations configured behind the loggers are a
  parameter: \<open>dest n r\<close> is the exception raised when the logger \<open>n\<close> handles \<open>r\<close>, if any.
\<close>

record listener_state =
  log_queue :: log_queue
  outer_exit_event :: "bool option"
  trace :: "event list"
  logging_shut_down :: bool

type_synonym destinations = "string \<Rightarrow> log_record \<Rightarrow> py_error option"

definition fallback :: "int \<Rightarrow> fallback_msg \<Rightarrow> listener_state \<Rightarrow> listener_state" where
  "fallback lvl m st = st\<lparr>trace := trace st @ [Fallback lvl m]\<rparr>"

definition is_set :: "bool option \<Rightarrow> bool" where
  "is_set ev = (ev = Some True)"

text \<open>\<^verbatim>\<open>outer_exit_event.set()\<close>: \<^verbatim>\<open>None\<close> has no attribute \<^verbatim>\<open>set\<close>.\<close>

definition event_set :: "bool option \<Rightarrow> py_error + bool option" where
  "event_set ev = (case ev of None \<Rightarrow> Inl AttributeError | Some _ \<Rightarrow> Inr (Some True))"

text \<open>
  The loop \<^verbatim>\<open>while True\<close> of the shutdown branch: every item still found in the queue is
  logged as a warning; \<^verbatim>\<open>queue.Empty\<close> ends the loop, any other exception leaves it.
  The result is the exception that left the loop, if any, and the state.
\<close>

function drain_queue :: "listener_state \<Rightarrow> py_error option \<times> listener_state" where
  "drain_queue st =
     (case queue_get (log_queue st) of
        (Inr log_record, q) \<Rightarrow>
          drain_queue (fallback WARNING (RecordPastShutdown log_record) (st\<lparr>log_queue := q\<rparr>))
      | (Inl e, q) \<Rightarrow>
          (if e = QueueEmpty then (None, st\<lparr>log_queue := q\<rparr>)
           else (Some e, st\<lparr>log_queue := q\<rparr>)))"
  by pat_completeness auto
termination
  by (relation "measure (\<lambda>st. length (items (log_queue st)))")
     (auto simp: queue_get_def fallback_def split: if_splits list.splits)

declare drain_queue.simps [simp del]

text \<open>
  The inner \<^verbatim>\<open>try\<close> of the shutdown branch: drain, close, join; any exception is logged
  through the listener's own logger and shutdown goes on.
\<close>

definition clean_up_queue :: "listener_state \<Rightarrow> listener_state" where
  "clean_up_queue st =
     (let failed = (\<lambda>e s. fallback INFO ErrorInfo (fallback ERROR (CleaningUp e) s)) in
      case drain_queue st of
        (Some e, st1) \<Rightarrow> failed e st1
      | (None, st1) \<Rightarrow>
          (case queue_close (log_queue st1) of
             Inl e \<Rightarrow> failed e st1
           | Inr q1 \<Rightarrow>
               (case queue_join_thread q1 of
                  Inl e \<Rightarrow> failed e (st1\<lparr>log_queue := q1\<rparr>)
                | Inr q2 \<Rightarrow> st1\<lparr>log_queue := q2\<rparr>)))"

text \<open>
  The branch \<^verbatim>\<open>if log_record is LOG_RECORD_SENTINEL\<close>. It begins with the call
  \<^verbatim>\<open>outer_exit_event.set()\<close> and ends with the test \<^verbatim>\<open>if outer_exit_event is None\<close>,
  which raises \<^verbatim>\<open>StopIteration\<close>.
\<close>

definition shut_down :: "listener_state \<Rightarrow> py_error + (item option \<times> listener_state)" where
  "shut_down st =
     (case event_set (outer_exit_event st) of
        Inl e \<Rightarrow> Inl e
      | Inr ev \<Rightarrow>
          (let st1 = fallback INFO ShuttingDown (st\<lparr>outer_exit_event := ev\<rparr>);
               st2 = clean_up_queue st1;
               st3 = fallback INFO ShutDown st2;
               st4 = st3\<lparr>logging_shut_down := True\<rparr>
           in if outer_exit_event st4 = None then Inl StopIteration else Inr (None, st4)))"

text \<open>
  The second \<^verbatim>\<open>try\<close>: look the logger up by \<^verbatim>\<open>log_record.name\<close> and hand the record to
  it. \<open>try_handle\<close> gives the events of the attempt and the exception raised, if any; an
  item that is not a record has no \<^verbatim>\<open>name\<close>. \<open>dispatch\<close> adds the handler
  \<^verbatim>\<open>except Exception\<close>, which logs a warning and two informational lines.
\<close>

definition try_handle :: "destinations \<Rightarrow> item \<Rightarrow> event list \<times> py_error option" where
  "try_handle dest log_record =
     (case log_record of
        Record r \<Rightarrow> ([Handle (name r) r (dest (name r) r)], dest (name r) r)
      | _ \<Rightarrow> ([], Some AttributeError))"

definition dispatch :: "destinations \<Rightarrow> item \<Rightarrow> listener_state \<Rightarrow> listener_state" where
  "dispatch dest log_record st =
     (case try_handle dest log_record of
        (evs, None) \<Rightarrow> st\<lparr>trace := trace st @ evs\<rparr>
      | (evs, Some e) \<Rightarrow>
          fallback INFO (LogRecordInfo log_record)
            (fallback INFO ErrorInfo
              (fallback WARNING (LoggingRecord e log_record) (st\<lparr>trace := trace st @ evs\<rparr>))))"

text \<open>
  \<^verbatim>\<open>handle_queued_log_record\<close>: the result is the exception that leaves the function, or
  the value returned (\<open>None\<close> or the item taken) with the new state.
\<close>

definition handle_queued_log_record ::
  "destinations \<Rightarrow> listener_state \<Rightarrow> py_error + (item option \<times> listener_state)" where
  "handle_queued_log_record dest st =
     (case queue_get (log_queue st) of
        (Inl e, q) \<Rightarrow>
          (if e = QueueEmpty \<or> e = InterruptedError then Inr (None, st\<lparr>log_queue := q\<rparr>)
           else Inr (None, fallback INFO ErrorDetails
                             (fallback ERROR (GettingFromQueue e) (st\<lparr>log_queue := q\<rparr>))))
      | (Inr log_record, q) \<Rightarrow>
          (if log_record = LOG_RECORD_SENTINEL then shut_down (st\<lparr>log_queue := q\<rparr>)
           else Inr (Some log_record, dispatch dest log_record (st\<lparr>log_queue := q\<rparr>))))"

text \<open>
  Modelled from the spec: \<^verbatim>\<open>brokkr.utils.misc.run_periodic\<close>, the driver of the loop, is
  not among the sources. By the specification the loop stays in Running, calling the
  handler again and again, and leaves as soon as the exit event the handler sets or the
  caller's independent stop signal is found set; the period is 0, so nothing waits
  between two calls. An exception of the handler leaves the loop. The loop may run
  forever (an empty queue and no signal), so it takes fuel: \<open>None\<close> is a run that has
  not ended within the fuel.
\<close>

fun run_periodic ::
  "nat \<Rightarrow> destinations \<Rightarrow> bool option \<Rightarrow> listener_state \<Rightarrow> (py_error + listener_state) option" where
  "run_periodic 0 dest exit_event st = None"
| "run_periodic (Suc fuel) dest exit_event st =
     (if is_set (outer_exit_event st) \<or> is_set exit_event then Some (Inr st)
      else case handle_queued_log_record dest st of
             Inl e \<Rightarrow> Some (Inl e)
           | Inr (_, st') \<Rightarrow> run_periodic fuel dest exit_event st')"

text \<open>
  \<^verbatim>\<open>run_log_listener\<close>: \<open>log_configurator\<close> is the outcome of the call
  \<^verbatim>\<open>log_configurator(**configurator_kwargs)\<close>, the exception it raised if any. The outer
  exit event is a new event, not set; \<open>exit_event\<close> is the caller's.
\<close>

definition run_log_listener ::
  "nat \<Rightarrow> destinations \<Rightarrow> log_queue \<Rightarrow> py_error option \<Rightarrow> bool option \<Rightarrow>
     (py_error + listener_state) option" where
  "run_log_listener fuel dest q log_configurator exit_event =
     (case log_configurator of
        Some e \<Rightarrow> Some (Inl e)
      | None \<Rightarrow>
          run_periodic fuel dest exit_event
            (fallback INFO Starting
               \<lparr>log_queue = q, outer_exit_event = Some False, trace = [],
                logging_shut_down = False\<rparr>))"

subsection \<open>Reading a trace\<close>

text \<open>
  \<open>handed\<close>: the records handed to loggers, in order, each with the name of its logger.
  \<open>delivered\<close>: those among them whose handling raised nothing. \<open>late_warnings\<close>: the
  warnings for items found in the queue past shutdown.
\<close>

fun handed :: "event list \<Rightarrow> (string \<times> log_record) list" where
  "handed [] = []"
| "handed (Handle n r _ # evs) = (n, r) # handed evs"
| "handed (Fallback _ _ # evs) = handed evs"

fun delivered :: "event list \<Rightarrow> (string \<times> log_record) list" where
  "delivered [] = []"
| "delivered (Handle n r None # evs) = (n, r) # delivered evs"
| "delivered (_ # evs) = delivered evs"

definition late_warnings :: "item list \<Rightarrow> event list" where
  "late_warnings xs = map (\<lambda>x. Fallback WARNING (RecordPastShutdown x)) xs"

section \<open>Example data\<close>

definition example_config :: log_config where
  "example_config =
     \<lparr>handlers =
        [(''console'', \<lparr>level = Some (PStr ''INFO''), filename = None\<rparr>),
         (''file'', \<lparr>level = Some (PStr ''INFO''), filename = Some (PStr ''run.log'')\<rparr>),
         (''audit'', \<lparr>level = Some (PInt 10), filename = Some (PStr ''/tmp/x.log'')\<rparr>)],
      root_level = Some (PStr ''WARNING''),
      root_handlers = [''console'']\<rparr>"

definition empty_fs :: filesystem where
  "empty_fs = \<lparr>dirs = {}, files = {}\<rparr>"

definition example_output_path :: path where
  "example_output_path = \<lparr>absolute = True, parts = [''var'', ''log'', ''agent'']\<rparr>"

definition example_config_resolved :: log_config where
  "example_config_resolved =
     \<lparr>handlers =
        [(''console'', \<lparr>level = Some (PStr ''INFO''), filename = None\<rparr>),
         (''file'', \<lparr>level = Some (PStr ''INFO''),
                    filename = Some (PPath \<lparr>absolute = True,
                                  parts = [''var'', ''log'', ''agent'', ''run.log'']\<rparr>)\<rparr>),
         (''audit'', \<lparr>level = Some (PInt 10),
                     filename = Some (PPath \<lparr>absolute = True, parts = [''tmp'', ''x.log'']\<rparr>)\<rparr>)],
      root_level = Some (PStr ''WARNING''),
      root_handlers = [''console'']\<rparr>"

definition example_fs_resolved :: filesystem where
  "example_fs_resolved =
     \<lparr>dirs = {\<lparr>absolute = True, parts = [''var'']\<rparr>,
              \<lparr>absolute = True, parts = [''var'', ''log'']\<rparr>,
              \<lparr>absolute = True, parts = [''var'', ''log'', ''agent'']\<rparr>,
              \<lparr>absolute = True, parts = [''tmp'']\<rparr>},
      files = {}\<rparr>"

definition example_config_debug :: log_config where
  "example_config_debug =
     \<lparr>handlers =
        [(''console'', \<lparr>level = Some (PStr ''INFO''), filename = None\<rparr>),
         (''file'', \<lparr>level = Some (PStr ''DEBUG''), filename = Some (PStr ''run.log'')\<rparr>),
         (''audit'', \<lparr>level = Some (PInt 10), filename = Some (PStr ''/tmp/x.log'')\<rparr>)],
      root_level = Some (PInt 10),
      root_handlers = [''console'', ''file'']\<rparr>"


definition example_record :: log_record where
  "example_record = \<lparr>name = ''brokkr.pipeline'', levelno = INFO, msg = ''started''\<rparr>"

definition other_record :: log_record where
  "other_record = \<lparr>name = ''brokkr.sunsaver'', levelno = ERROR, msg = ''no reply''\<rparr>"

definition open_queue :: "item list \<Rightarrow> log_queue" where
  "open_queue xs = \<lparr>items = xs, closed = False, joined = False, has_close = True\<rparr>"

definition no_failures :: destinations where
  "no_failures n r = None"

definition running_state :: "item list \<Rightarrow> bool option \<Rightarrow> listener_state" where
  "running_state xs ev =
     \<lparr>log_queue = open_queue xs, outer_exit_event = ev, trace = [],
      logging_shut_down = False\<rparr>"

section \<open>Severity mapper: results\<close>

lemmas level_defs = CRITICAL_def ERROR_def WARNING_def INFO_def DEBUG_def NOTSET_def

lemma LOG_LEVEL_simps:
  "LOG_LEVEL (- 3) = Some 99" "LOG_LEVEL (- 2) = Some 50" "LOG_LEVEL (- 1) = Some 40"
  "LOG_LEVEL 0 = Some 30" "LOG_LEVEL 1 = Some 20" "LOG_LEVEL 2 = Some 10"
  "LOG_LEVEL 3 = Some 2"
  by (simp_all add: LOG_LEVEL_def LOG_LEVEL_items_def level_defs)

lemma determine_log_level_above:
  "MAX_VERBOSE < v \<Longrightarrow> determine_log_level v = Inr 2"
  by (simp add: determine_log_level_def round_int_def getitem_def MAX_VERBOSE_def
      LOG_LEVEL_simps)

lemma determine_log_level_below:
  "v < MIN_VERBOSE \<Longrightarrow> determine_log_level v = Inr 99"
  by (simp add: determine_log_level_def round_int_def getitem_def MAX_VERBOSE_def
      MIN_VERBOSE_def LOG_LEVEL_simps)

lemma in_range_cases:
  assumes "MIN_VERBOSE \<le> v" "v \<le> MAX_VERBOSE"
  shows "v = - 3 \<or> v = - 2 \<or> v = - 1 \<or> v = 0 \<or> v = 1 \<or> v = 2 \<or> v = 3"
  using assms unfolding MIN_VERBOSE_def MAX_VERBOSE_def by arith

lemma determine_log_level_inside:
  "determine_log_level (- 3) = Inr 99" "determine_log_level (- 2) = Inr 50"
  "determine_log_level (- 1) = Inr 40" "determine_log_level 0 = Inr 30"
  "determine_log_level 1 = Inr 20" "determine_log_level 2 = Inr 10"
  "determine_log_level 3 = Inr 2"
  by (simp_all add: determine_log_level_def round_int_def getitem_def MAX_VERBOSE_def
      MIN_VERBOSE_def LOG_LEVEL_simps)

text \<open>The mapper has no failure mode: the clamped key is always in the table.\<close>

lemma determine_log_level_closed_form:
  "determine_log_level v =
     Inr (if v \<le> - 3 then 99 else if v = - 2 then 50 else if v = - 1 then 40
          else if v = 0 then 30 else if v = 1 then 20 else if v = 2 then 10 else 2)"
proof -
  consider "v < MIN_VERBOSE" | "MAX_VERBOSE < v" | "MIN_VERBOSE \<le> v" "v \<le> MAX_VERBOSE"
    by linarith
  then show ?thesis
  proof cases
    case 1
    then show ?thesis
      using determine_log_level_below [of v] by (simp add: MIN_VERBOSE_def)
  next
    case 2
    then show ?thesis
      using determine_log_level_above [of v] by (simp add: MAX_VERBOSE_def)
  next
    case 3
    then show ?thesis
      using in_range_cases [of v] by (auto simp: determine_log_level_inside)
  qed
qed

text \<open>
  Claim C1, as the code has it. For every verbosity \<open>v\<close> strictly above \<open>MAX_VERBOSE\<close>,
  \<open>determine_log_level v\<close> returns \<open>LOG_LEVEL[MAX_VERBOSE] = 2\<close>, the least severe (most
  permissive) threshold of the table, which lies below \<open>DEBUG\<close>; for every \<open>v\<close> strictly
  below \<open>MIN_VERBOSE\<close> it returns \<open>LOG_LEVEL[MIN_VERBOSE] = 99\<close>, which lies above the most
  severe standard level \<open>CRITICAL\<close> and so disables all emission.
\<close>

theorem determine_log_level_clamps:
  "(MAX_VERBOSE < v \<longrightarrow>
      determine_log_level v = determine_log_level MAX_VERBOSE \<and>
      determine_log_level v = Inr 2 \<and> 2 < DEBUG \<and>
      (\<forall>k t. LOG_LEVEL k = Some t \<longrightarrow> 2 \<le> t)) \<and>
   (v < MIN_VERBOSE \<longrightarrow>
      determine_log_level v = determine_log_level MIN_VERBOSE \<and>
      determine_log_level v = Inr 99 \<and> above_all_standard_levels 99)"
proof -
  have least: "\<forall>k t. LOG_LEVEL k = Some t \<longrightarrow> 2 \<le> t"
    by (auto simp: LOG_LEVEL_def LOG_LEVEL_items_def level_defs split: if_splits)
  show ?thesis
    using least
    by (simp add: determine_log_level_closed_form MAX_VERBOSE_def MIN_VERBOSE_def
        above_all_standard_levels_def level_defs)
qed

theorem determine_log_level_clamps_witness:
  "MAX_VERBOSE < 10 \<and> determine_log_level 10 = Inr 2 \<and>
   - 10 < MIN_VERBOSE \<and> determine_log_level (- 10) = Inr 99 \<and>
   above_all_standard_levels 99"
  using determine_log_level_clamps [of 10] determine_log_level_clamps [of "- 10"]
  by (simp add: MAX_VERBOSE_def MIN_VERBOSE_def determine_log_level_inside)

text \<open>
  The claim as the specification words it fails: at verbosity 10 the threshold is 2, which
  is not above the most severe standard level, and at verbosity -10 the threshold is 99,
  which is not the least severe one.
\<close>

theorem determine_log_level_above_max_counterexample:
  "determine_log_level 10 = Inr 2 \<and> \<not> above_all_standard_levels 2 \<and>
   determine_log_level (- 10) = Inr 99 \<and> above_all_standard_levels 99"
  by (simp add: determine_log_level_closed_form above_all_standard_levels_def level_defs)

text \<open>
  Claim C6. For every \<open>v \<le> MIN_VERBOSE\<close> the threshold is that of \<open>MIN_VERBOSE\<close>; for
  every \<open>v \<ge> MAX_VERBOSE\<close> it is that of \<open>MAX_VERBOSE\<close>; and inside the range the
  threshold is non-increasing in the verbosity. The mapper never raises.
\<close>

theorem determine_log_level_monotone:
  "(v \<le> MIN_VERBOSE \<longrightarrow> determine_log_level v = determine_log_level MIN_VERBOSE) \<and>
   (MAX_VERBOSE \<le> v \<longrightarrow> determine_log_level v = determine_log_level MAX_VERBOSE) \<and>
   (MIN_VERBOSE \<le> v \<and> v \<le> w \<and> w \<le> MAX_VERBOSE \<longrightarrow>
      (\<exists>a b. determine_log_level v = Inr a \<and> determine_log_level w = Inr b \<and> b \<le> a))"
  by (simp add: determine_log_level_closed_form MAX_VERBOSE_def MIN_VERBOSE_def)

theorem determine_log_level_monotone_witness:
  "- 5 \<le> MIN_VERBOSE \<and> determine_log_level (- 5) = determine_log_level MIN_VERBOSE \<and>
   MAX_VERBOSE \<le> 7 \<and> determine_log_level 7 = determine_log_level MAX_VERBOSE \<and>
   MIN_VERBOSE \<le> - 1 \<and> (- 1 :: int) \<le> 2 \<and> 2 \<le> MAX_VERBOSE \<and>
   (\<exists>a b. determine_log_level (- 1) = Inr a \<and> determine_log_level 2 = Inr b \<and> b \<le> a)"
  using determine_log_level_monotone [of "- 5" 0] determine_log_level_monotone [of 7 0]
    determine_log_level_monotone [of "- 1" 2]
  by (simp add: MAX_VERBOSE_def MIN_VERBOSE_def determine_log_level_inside)

section \<open>Handler configuration renderer: results\<close>

lemma makedirs_ok:
  assumes "list_all (\<lambda>a. a \<notin> files fs) (lineage p)"
  shows "makedirs p fs = Inr (fs\<lparr>dirs := dirs fs \<union> set (lineage p)\<rparr>)"
  using assms by (auto simp: makedirs_def list_all_iff)

lemma leading_parts_self: "xs \<noteq> [] \<Longrightarrow> xs \<in> set (leading_parts xs)"
proof (induction xs)
  case Nil
  then show ?case by simp
next
  case (Cons x xs)
  then show ?case by (cases "xs = []") auto
qed

lemma lineage_last: "parts p \<noteq> [] \<Longrightarrow> p \<in> set (lineage p)"
proof -
  assume "parts p \<noteq> []"
  then have "parts p \<in> set (leading_parts (parts p))"
    by (rule leading_parts_self)
  moreover have "p = p\<lparr>parts := parts p\<rparr>"
    by simp
  ultimately show ?thesis
    unfolding lineage_def set_map by (rule image_eqI [rotated])
qed

lemma is_dir_after_makedirs:
  assumes "makedirs p fs = Inr fs'"
  shows "is_dir fs' p"
proof (cases "parts p = []")
  case True
  then show ?thesis by (simp add: is_dir_def)
next
  case False
  then have "p \<in> set (lineage p)" by (rule lineage_last)
  with assms show ?thesis
    by (auto simp: makedirs_def is_dir_def split: if_splits)
qed

lemma makedirs_again:
  assumes "makedirs p fs = Inr fs'"
  shows "makedirs p fs' = Inr fs'"
proof -
  from assms have none: "\<not> (\<exists>a \<in> set (lineage p). a \<in> files fs)"
    and fs': "fs' = fs\<lparr>dirs := dirs fs \<union> set (lineage p)\<rparr>"
    by (auto simp: makedirs_def split: if_splits)
  have "dirs fs' \<union> set (lineage p) = dirs fs'"
    unfolding fs' by auto
  then show ?thesis
    using none unfolding fs' by (simp add: makedirs_def)
qed

lemma makedirs_grows:
  assumes "makedirs p fs = Inr fs'"
  shows "dirs fs \<subseteq> dirs fs'" "files fs' = files fs"
  using assms by (auto simp: makedirs_def split: if_splits)

lemma makedirs_stable:
  assumes "makedirs p fs = Inr fs" "dirs fs \<subseteq> dirs fs2" "files fs2 = files fs"
  shows "makedirs p fs2 = Inr fs2"
proof -
  from assms(1) have none: "\<not> (\<exists>a \<in> set (lineage p). a \<in> files fs)"
    by (auto simp: makedirs_def split: if_splits)
  from assms(1) have "fs\<lparr>dirs := dirs fs \<union> set (lineage p)\<rparr> = fs"
    using none by (simp add: makedirs_def)
  then have "dirs (fs\<lparr>dirs := dirs fs \<union> set (lineage p)\<rparr>) = dirs fs"
    by simp
  then have "set (lineage p) \<subseteq> dirs fs"
    by auto
  then have "dirs fs2 \<union> set (lineage p) = dirs fs2"
    using assms(2) by auto
  then show ?thesis
    using none assms(3) by (simp add: makedirs_def)
qed

lemma is_dir_mono: "is_dir fs p \<Longrightarrow> dirs fs \<subseteq> dirs fs2 \<Longrightarrow> is_dir fs2 p"
  by (auto simp: is_dir_def)

lemma handler_resolved_mono:
  assumes "handler_resolved conv out args fs h h'" "dirs fs \<subseteq> dirs fs2" "files fs2 = files fs"
  shows "handler_resolved conv out args fs2 h h'"
  using assms
  by (auto simp: handler_resolved_def is_dir_mono makedirs_stable
      split: option.splits pyval.splits if_splits)

lemma resolve_handler_path_ok:
  assumes "resolvable conv out args fs h"
  shows "\<exists>h' fs'. resolve_handler_path conv out args h fs = Inr (h', fs') \<and>
           handler_resolved conv out args fs' h h' \<and>
           dirs fs \<subseteq> dirs fs' \<and> files fs' = files fs"
proof (cases "filename h")
  case None
  then show ?thesis
    by (simp add: resolve_handler_path_def handler_resolved_def)
next
  case (Some v)
  show ?thesis
  proof (cases "truthy v")
    case False
    with Some show ?thesis
      by (cases v) (simp_all add: resolve_handler_path_def handler_resolved_def)
  next
    case True
    with Some assms obtain t s where v: "v = PStr t" and t: "t \<noteq> []"
      and s: "format_str args t = Inr s"
      and free: "list_all (\<lambda>a. a \<notin> files fs) (lineage (parent (anchor out (conv s))))"
      by (cases v) (auto simp: resolvable_def split: sum.splits)
    let ?p = "parent (anchor out (conv s))"
    let ?fs' = "fs\<lparr>dirs := dirs fs \<union> set (lineage ?p)\<rparr>"
    have mk: "makedirs ?p fs = Inr ?fs'"
      using free by (rule makedirs_ok)
    have res: "resolve_handler_path conv out args h fs =
                 Inr (h\<lparr>filename := Some (PPath (anchor out (conv s)))\<rparr>, ?fs')"
      using Some v t s mk by (simp add: resolve_handler_path_def Let_def)
    have "handler_resolved conv out args ?fs' h
            (h\<lparr>filename := Some (PPath (anchor out (conv s)))\<rparr>)"
      using Some v t s is_dir_after_makedirs [OF mk] makedirs_again [OF mk]
      by (simp add: handler_resolved_def)
    with res show ?thesis by auto
  qed
qed

lemma resolvable_files:
  assumes "files fs2 = files fs"
  shows "resolvable conv out args fs2 h = resolvable conv out args fs h"
  unfolding resolvable_def assms by (rule refl)

lemma resolve_handlers_ok:
  assumes "list_all (\<lambda>(n, h). resolvable conv out args fs h) hs"
  shows "\<exists>hs' fs'. resolve_handlers conv out args hs fs = Inr (hs', fs') \<and>
           list_all2 (\<lambda>(n, h) (n', h'). n' = n \<and> handler_resolved conv out args fs' h h') hs hs' \<and>
           dirs fs \<subseteq> dirs fs' \<and> files fs' = files fs"
  using assms
proof (induction hs arbitrary: fs)
  case Nil
  then show ?case by simp
next
  case (Cons nh hs)
  obtain n h where nh: "nh = (n, h)" by (cases nh)
  from Cons.prems nh have "resolvable conv out args fs h"
    by simp
  from resolve_handler_path_ok [OF this] obtain h' fs1
    where step: "resolve_handler_path conv out args h fs = Inr (h', fs1)"
      and h': "handler_resolved conv out args fs1 h h'"
      and grow1: "dirs fs \<subseteq> dirs fs1" "files fs1 = files fs"
    by blast
  have "list_all (\<lambda>(n, h). resolvable conv out args fs1 h) hs"
    using Cons.prems by (simp add: resolvable_files [OF grow1(2)])
  from Cons.IH [OF this] obtain hs' fs2
    where rest: "resolve_handlers conv out args hs fs1 = Inr (hs', fs2)"
      and all: "list_all2 (\<lambda>(n, h) (n', h'). n' = n \<and> handler_resolved conv out args fs2 h h')
                  hs hs'"
      and grow2: "dirs fs1 \<subseteq> dirs fs2" "files fs2 = files fs1"
    by blast
  have "handler_resolved conv out args fs2 h h'"
    using h' grow2 by (rule handler_resolved_mono)
  with step rest all grow1 grow2 nh show ?case
    by auto
qed


lemma example_paths:
  "Path ''/var/log/agent'' = example_output_path"
  "Path ''run.log'' = \<lparr>absolute = False, parts = [''run.log'']\<rparr>"
  "Path ''/tmp/x.log'' = \<lparr>absolute = True, parts = [''tmp'', ''x.log'']\<rparr>"
  by (simp_all add: Path_def example_output_path_def)

lemma example_formats:
  "format_str Map.empty ''run.log'' = Inr ''run.log''"
  "format_str Map.empty ''/tmp/x.log'' = Inr ''/tmp/x.log''"
  by simp_all

lemma example_setup_paths:
  "setup_log_handler_paths Path example_config (Some example_output_path) Map.empty empty_fs
     = Inr (example_config_resolved, example_fs_resolved)"
  by (simp add: setup_log_handler_paths_def resolve_handler_path_def example_config_def
      example_formats example_paths anchor_def is_absolute_def joinpath_def parent_def
      makedirs_def lineage_def example_output_path_def empty_fs_def
      example_config_resolved_def example_fs_resolved_def insert_commute)


text \<open>
  Claim C8. When no handler makes the loop raise, \<open>setup_log_handler_paths\<close> returns,
  and for every handler with a file name template: the stored file name is the path of
  the formatted template, anchored under the output directory when it is relative
  (the output directory's components followed by its own) and left as it is when it is
  absolute; the parent directory of that path exists afterwards; and creating it again
  changes nothing and raises nothing. Handlers with no file name, the levels, the root
  entry and the files of the file system are untouched, and no directory is removed.
\<close>

theorem setup_log_handler_paths_resolves:
  assumes "list_all (\<lambda>(n, h). resolvable conv out args fs h) (handlers cfg)"
  shows "(\<exists>cfg' fs'. setup_log_handler_paths conv cfg out args fs = Inr (cfg', fs') \<and>
            list_all2 (\<lambda>(n, h) (n', h'). n' = n \<and> handler_resolved conv out args fs' h h')
              (handlers cfg) (handlers cfg') \<and>
            root_level cfg' = root_level cfg \<and> root_handlers cfg' = root_handlers cfg \<and>
            dirs fs \<subseteq> dirs fs' \<and> files fs' = files fs) \<and>
         (\<not> is_absolute p \<longrightarrow>
            anchor (Some base) p = \<lparr>absolute = absolute base, parts = parts base @ parts p\<rparr>) \<and>
         (is_absolute p \<longrightarrow> anchor out p = p)"
proof -
  from resolve_handlers_ok [OF assms] obtain hs' fs'
    where "resolve_handlers conv out args (handlers cfg) fs = Inr (hs', fs')"
      and "list_all2 (\<lambda>(n, h) (n', h'). n' = n \<and> handler_resolved conv out args fs' h h')
             (handlers cfg) hs'"
      and "dirs fs \<subseteq> dirs fs'" "files fs' = files fs"
    by blast
  then have "\<exists>cfg' fs'. setup_log_handler_paths conv cfg out args fs = Inr (cfg', fs') \<and>
            list_all2 (\<lambda>(n, h) (n', h'). n' = n \<and> handler_resolved conv out args fs' h h')
              (handlers cfg) (handlers cfg') \<and>
            root_level cfg' = root_level cfg \<and> root_handlers cfg' = root_handlers cfg \<and>
            dirs fs \<subseteq> dirs fs' \<and> files fs' = files fs"
    by (simp add: setup_log_handler_paths_def)
  then show ?thesis
    by (simp add: anchor_def is_absolute_def joinpath_def split: option.splits)
qed

theorem setup_log_handler_paths_resolves_witness:
  "list_all (\<lambda>(n, h). resolvable Path (Some example_output_path) Map.empty empty_fs h)
     (handlers example_config) \<and>
   setup_log_handler_paths Path example_config (Some example_output_path) Map.empty empty_fs
     = Inr (example_config_resolved, example_fs_resolved) \<and>
   \<not> is_absolute (Path ''run.log'') \<and>
   anchor (Some example_output_path) (Path ''run.log'')
     = \<lparr>absolute = True, parts = [''var'', ''log'', ''agent'', ''run.log'']\<rparr> \<and>
   is_absolute (Path ''/tmp/x.log'') \<and>
   anchor (Some example_output_path) (Path ''/tmp/x.log'') = Path ''/tmp/x.log'' \<and>
   makedirs (parent (Path ''/tmp/x.log'')) example_fs_resolved = Inr example_fs_resolved"
proof -
  have ok: "list_all (\<lambda>(n, h). resolvable Path (Some example_output_path) Map.empty empty_fs h)
     (handlers example_config)"
    by (simp add: example_config_def resolvable_def example_formats example_paths anchor_def
        is_absolute_def joinpath_def parent_def lineage_def example_output_path_def
        empty_fs_def)
  have again: "makedirs (parent (Path ''/tmp/x.log'')) example_fs_resolved = Inr example_fs_resolved"
    by (simp add: example_paths parent_def makedirs_def lineage_def example_fs_resolved_def
        insert_absorb)
  have rel: "\<not> is_absolute (Path ''run.log'')"
    by (simp add: example_paths is_absolute_def)
  have abs: "is_absolute (Path ''/tmp/x.log'')"
    by (simp add: example_paths is_absolute_def)
  from setup_log_handler_paths_resolves
         [OF ok, where p = "Path ''run.log''" and base = example_output_path] rel
  have "anchor (Some example_output_path) (Path ''run.log'')
          = \<lparr>absolute = absolute example_output_path,
             parts = parts example_output_path @ parts (Path ''run.log'')\<rparr>"
    by blast
  then have anchored: "anchor (Some example_output_path) (Path ''run.log'')
          = \<lparr>absolute = True, parts = [''var'', ''log'', ''agent'', ''run.log'']\<rparr>"
    by (simp add: example_paths example_output_path_def)
  from setup_log_handler_paths_resolves
         [OF ok, where p = "Path ''/tmp/x.log''"] abs
  have kept: "anchor (Some example_output_path) (Path ''/tmp/x.log'') = Path ''/tmp/x.log''"
    by blast
  from ok example_setup_paths rel anchored abs kept again show ?thesis
    by blast
qed

lemma resolve_handler_path_level:
  "resolve_handler_path conv out args h fs = Inr (h', fs') \<Longrightarrow> level h' = level h"
  by (auto simp: resolve_handler_path_def Let_def
      split: option.splits if_splits pyval.splits sum.splits)

lemma resolve_handlers_levels:
  "resolve_handlers conv out args hs fs = Inr (hs', fs') \<Longrightarrow>
     map (\<lambda>(n, h). (n, level h)) hs' = map (\<lambda>(n, h). (n, level h)) hs"
proof (induction hs arbitrary: fs hs')
  case Nil
  then show ?case by simp
next
  case (Cons nh hs)
  obtain n h where nh: "nh = (n, h)" by (cases nh)
  from Cons.prems nh obtain h' fs1 hs1
    where "resolve_handler_path conv out args h fs = Inr (h', fs1)"
      and "resolve_handlers conv out args hs fs1 = Inr (hs1, fs')"
      and "hs' = (n, h') # hs1"
    by (auto split: sum.splits)
  with Cons.IH [of fs1 hs1] nh show ?case
    by (simp add: resolve_handler_path_level)
qed

text \<open>
  Claim C9. When both level overrides given to \<open>render_full_log_config\<close> are falsy
  (\<^verbatim>\<open>None\<close>, 0 or the empty string), the result is that of \<open>setup_log_handler_paths\<close>
  alone: the handler levels, the root's handler list and the root level are those of
  the template; a root level given by name stays a name, also under the override 0.
\<close>

theorem render_without_level_overrides:
  "(\<not> truthy log_level_file \<and> \<not> truthy log_level_console \<longrightarrow>
      render_full_log_config conv cfg log_level_file log_level_console out args fs
        = setup_log_handler_paths conv cfg out args fs) \<and>
   (\<not> truthy log_level_file \<and> \<not> truthy log_level_console \<and>
    render_full_log_config conv cfg log_level_file log_level_console out args fs
      = Inr (cfg', fs') \<longrightarrow>
      root_level cfg' = root_level cfg \<and> root_handlers cfg' = root_handlers cfg \<and>
      map (\<lambda>(n, h). (n, level h)) (handlers cfg') = map (\<lambda>(n, h). (n, level h)) (handlers cfg))"
proof -
  have skip: "render_full_log_config conv cfg log_level_file log_level_console out args fs
        = setup_log_handler_paths conv cfg out args fs"
    if "\<not> truthy log_level_file \<and> \<not> truthy log_level_console"
    using that by (simp add: render_full_log_config_def split: sum.splits)
  have frame: "root_level cfg' = root_level cfg \<and> root_handlers cfg' = root_handlers cfg \<and>
      map (\<lambda>(n, h). (n, level h)) (handlers cfg') = map (\<lambda>(n, h). (n, level h)) (handlers cfg)"
    if "setup_log_handler_paths conv cfg out args fs = Inr (cfg', fs')"
    using that
    by (auto simp: setup_log_handler_paths_def resolve_handlers_levels split: sum.splits)
  show ?thesis
    using skip frame by metis
qed

theorem render_without_level_overrides_witness:
  "\<not> truthy (PInt 0) \<and> \<not> truthy PNone \<and>
   render_full_log_config Path example_config (PInt 0) PNone (Some example_output_path)
       Map.empty empty_fs
     = Inr (example_config_resolved, example_fs_resolved) \<and>
   root_level example_config_resolved = Some (PStr ''WARNING'') \<and>
   root_level example_config_resolved = root_level example_config \<and>
   root_handlers example_config_resolved = root_handlers example_config \<and>
   map (\<lambda>(n, h). (n, level h)) (handlers example_config_resolved)
     = map (\<lambda>(n, h). (n, level h)) (handlers example_config)"
proof -
  note inst = render_without_level_overrides [of "PInt 0" PNone Path example_config
      "Some example_output_path" Map.empty empty_fs example_config_resolved example_fs_resolved]
  have falsy: "\<not> truthy (PInt 0) \<and> \<not> truthy PNone"
    by simp
  with inst have run: "render_full_log_config Path example_config (PInt 0) PNone
       (Some example_output_path) Map.empty empty_fs
     = Inr (example_config_resolved, example_fs_resolved)"
    by (simp add: example_setup_paths)
  with inst falsy have "root_level example_config_resolved = root_level example_config \<and>
      root_handlers example_config_resolved = root_handlers example_config \<and>
      map (\<lambda>(n, h). (n, level h)) (handlers example_config_resolved)
        = map (\<lambda>(n, h). (n, level h)) (handlers example_config)"
    by blast
  moreover have "root_level example_config_resolved = Some (PStr ''WARNING'')"
    by (simp add: example_config_resolved_def)
  ultimately show ?thesis
    using falsy run by blast
qed


lemma py_min_Min:
  assumes "ns \<noteq> []"
  shows "py_min ns = Inr (Min (set ns))"
proof (cases ns)
  case Nil
  with assms show ?thesis by simp
next
  case (Cons n ns')
  then show ?thesis
    using Min.set_eq_fold [of n ns'] by (simp add: py_min_def)
qed

lemma map_of_update_handler:
  "map_of (update_handler k f hs) k' =
     (if k' = k then map_option f (map_of hs k) else map_of hs k')"
  by (induction hs) (auto simp: update_handler_def)

lemma keys_update_handler: "map fst (update_handler k f hs) = map fst hs"
  by (induction hs) (auto simp: update_handler_def)

lemma set_handler_level_skipped:
  "\<not> truthy lvl \<Longrightarrow> set_handler_level k lvl cfg = Inr cfg"
  by (simp add: set_handler_level_def)

lemma set_handler_level_applied:
  assumes "truthy lvl" "map_of (handlers cfg) k = Some h"
  shows "set_handler_level k lvl cfg =
           Inr (cfg\<lparr>handlers := update_handler k (\<lambda>h. h\<lparr>level := Some lvl\<rparr>) (handlers cfg),
                    root_handlers := (if k \<in> set (root_handlers cfg) then root_handlers cfg
                                      else root_handlers cfg @ [k])\<rparr>)"
  using assms by (simp add: set_handler_level_def Let_def)

lemma set_handler_level_ok:
  assumes "truthy lvl \<longrightarrow> k \<in> fst ` set (handlers cfg)"
  shows "\<exists>cfg1. set_handler_level k lvl cfg = Inr cfg1 \<and> root_level cfg1 = root_level cfg \<and>
           map fst (handlers cfg1) = map fst (handlers cfg)"
proof (cases "truthy lvl")
  case False
  then show ?thesis by (simp add: set_handler_level_skipped)
next
  case True
  with assms obtain h where "map_of (handlers cfg) k = Some h"
    by (metis domD dom_map_of_conv_image_fst)
  from set_handler_level_applied [OF True this] show ?thesis
    by (simp add: keys_update_handler)
qed

text \<open>
  Claim C7. On a configuration with root level \<^verbatim>\<open>WARNING\<close>, root handler list
  \<^verbatim>\<open>["console"]\<close> and a handler \<^verbatim>\<open>"file"\<close>, \<open>setup_log_levels\<close> with only
  \<^verbatim>\<open>file_level="DEBUG"\<close> returns a configuration with root level \<open>DEBUG\<close> (as its
  number), root handler list \<^verbatim>\<open>["console", "file"]\<close> and the level \<^verbatim>\<open>"DEBUG"\<close> on
  the file handler. In general, when the handlers to be set exist and the levels
  convert, the new root level is the least of the numbers of the prior root level and
  of the overrides supplied.
\<close>

theorem setup_log_levels_root_minimum:
  "(root_level cfg = Some rl \<and> (rl = PStr ''WARNING'' \<or> rl = PInt WARNING) \<and>
      root_handlers cfg = [''console''] \<and> map_of (handlers cfg) ''file'' = Some fh \<longrightarrow>
      (\<exists>cfg'. setup_log_levels cfg (PStr ''DEBUG'') PNone = Inr cfg' \<and>
         root_level cfg' = Some (PInt DEBUG) \<and>
         root_handlers cfg' = [''console'', ''file''] \<and>
         map_of (handlers cfg') ''file'' = Some (fh\<lparr>level := Some (PStr ''DEBUG'')\<rparr>))) \<and>
   (root_level cfg = Some rl \<and>
      (truthy (upper_level file_level) \<longrightarrow> ''file'' \<in> fst ` set (handlers cfg)) \<and>
      (truthy (upper_level console_level) \<longrightarrow> ''console'' \<in> fst ` set (handlers cfg)) \<and>
      level_values (filter supplied [upper_level file_level, upper_level console_level, rl])
        = Inr ns \<and> ns \<noteq> [] \<longrightarrow>
      (\<exists>cfg'. setup_log_levels cfg file_level console_level = Inr cfg' \<and>
         root_level cfg' = Some (PInt (Min (set ns)))))"
proof (intro conjI impI)
  assume a: "root_level cfg = Some rl \<and> (rl = PStr ''WARNING'' \<or> rl = PInt WARNING) \<and>
      root_handlers cfg = [''console''] \<and> map_of (handlers cfg) ''file'' = Some fh"
  have up: "upper_level (PStr ''DEBUG'') = PStr ''DEBUG''"
    by (simp add: upper_level_def upper_char_def)
  have file_set: "set_handler_level ''file'' (PStr ''DEBUG'') cfg =
      Inr (cfg\<lparr>handlers := update_handler ''file'' (\<lambda>h. h\<lparr>level := Some (PStr ''DEBUG'')\<rparr>)
                               (handlers cfg),
               root_handlers := [''console'', ''file'']\<rparr>)"
    using a set_handler_level_applied [of "PStr ''DEBUG''" cfg "''file''" fh] by simp
  have vals: "level_values (filter supplied [PStr ''DEBUG'', PNone, rl]) = Inr [DEBUG, WARNING]"
    using a
    by (auto simp: supplied_def level_value_def logging_level_names_def DEBUG_def WARNING_def)
  have least: "py_min [DEBUG, WARNING] = Inr DEBUG"
    by (simp add: py_min_def DEBUG_def WARNING_def)
  have up_none: "upper_level PNone = PNone"
    by (simp add: upper_level_def)
  let ?cfg1 = "cfg\<lparr>handlers := update_handler ''file'' (\<lambda>h. h\<lparr>level := Some (PStr ''DEBUG'')\<rparr>)
                               (handlers cfg),
               root_handlers := [''console'', ''file'']\<rparr>"
  have console_skipped: "set_handler_level ''console'' PNone ?cfg1 = Inr ?cfg1"
    by (simp add: set_handler_level_skipped)
  have "setup_log_levels cfg (PStr ''DEBUG'') PNone = Inr (?cfg1\<lparr>root_level := Some (PInt DEBUG)\<rparr>)"
    unfolding setup_log_levels_def up up_none Let_def file_set
    using a by (simp add: console_skipped vals least del: filter.simps)
  with a show "\<exists>cfg'. setup_log_levels cfg (PStr ''DEBUG'') PNone = Inr cfg' \<and>
         root_level cfg' = Some (PInt DEBUG) \<and>
         root_handlers cfg' = [''console'', ''file''] \<and>
         map_of (handlers cfg') ''file'' = Some (fh\<lparr>level := Some (PStr ''DEBUG'')\<rparr>)"
    by (simp add: map_of_update_handler)
next
  assume a: "root_level cfg = Some rl \<and>
      (truthy (upper_level file_level) \<longrightarrow> ''file'' \<in> fst ` set (handlers cfg)) \<and>
      (truthy (upper_level console_level) \<longrightarrow> ''console'' \<in> fst ` set (handlers cfg)) \<and>
      level_values (filter supplied [upper_level file_level, upper_level console_level, rl])
        = Inr ns \<and> ns \<noteq> []"
  then obtain cfg1 where c1: "set_handler_level ''file'' (upper_level file_level) cfg = Inr cfg1"
    and r1: "root_level cfg1 = root_level cfg"
    and k1: "map fst (handlers cfg1) = map fst (handlers cfg)"
    using set_handler_level_ok [of "upper_level file_level" "''file''" cfg] by blast
  have "fst ` set (handlers cfg1) = fst ` set (handlers cfg)"
    using k1 by (metis set_map)
  with a obtain cfg2
    where c2: "set_handler_level ''console'' (upper_level console_level) cfg1 = Inr cfg2"
    and r2: "root_level cfg2 = root_level cfg1"
    using set_handler_level_ok [of "upper_level console_level" "''console''" cfg1] by auto
  from a have "py_min ns = Inr (Min (set ns))"
    by (simp add: py_min_Min)
  with a c1 c2 r1 r2
  show "\<exists>cfg'. setup_log_levels cfg file_level console_level = Inr cfg' \<and>
         root_level cfg' = Some (PInt (Min (set ns)))"
    by (simp add: setup_log_levels_def Let_def)
qed

lemma example_setup_levels:
  "setup_log_levels example_config (PStr ''DEBUG'') PNone = Inr example_config_debug"
  "setup_log_levels example_config (PStr ''debug'') PNone = Inr example_config_debug"
  by (simp_all add: setup_log_levels_def upper_level_def upper_char_def set_handler_level_def
      example_config_def update_handler_def supplied_def level_value_def
      logging_level_names_def py_min_def example_config_debug_def
      DEBUG_def WARNING_def)

theorem setup_log_levels_root_minimum_witness:
  "root_level example_config = Some (PStr ''WARNING'') \<and>
   root_handlers example_config = [''console''] \<and>
   map_of (handlers example_config) ''file''
     = Some \<lparr>level = Some (PStr ''INFO''), filename = Some (PStr ''run.log'')\<rparr> \<and>
   setup_log_levels example_config (PStr ''DEBUG'') PNone = Inr example_config_debug \<and>
   root_level example_config_debug = Some (PInt DEBUG) \<and>
   root_handlers example_config_debug = [''console'', ''file''] \<and>
   level_values (filter supplied [upper_level (PStr ''debug''), upper_level PNone,
                                   PStr ''WARNING''])
     = Inr [10, 30] \<and>
   root_level example_config_debug = Some (PInt (Min (set [10, 30])))"
proof -
  note inst = setup_log_levels_root_minimum [of example_config "PStr ''WARNING''"
      "\<lparr>level = Some (PStr ''INFO''), filename = Some (PStr ''run.log'')\<rparr>"
      "PStr ''debug''" PNone "[10, 30]"]
  have pre: "root_level example_config = Some (PStr ''WARNING'') \<and>
      root_handlers example_config = [''console''] \<and>
      map_of (handlers example_config) ''file''
        = Some \<lparr>level = Some (PStr ''INFO''), filename = Some (PStr ''run.log'')\<rparr>"
    by (simp add: example_config_def)
  with inst have "\<exists>cfg'. setup_log_levels example_config (PStr ''DEBUG'') PNone = Inr cfg' \<and>
         root_level cfg' = Some (PInt DEBUG) \<and>
         root_handlers cfg' = [''console'', ''file'']"
    by blast
  then have first: "root_level example_config_debug = Some (PInt DEBUG) \<and>
      root_handlers example_config_debug = [''console'', ''file'']"
    by (simp add: example_setup_levels)
  have vals: "level_values (filter supplied [upper_level (PStr ''debug''), upper_level PNone,
                                   PStr ''WARNING''])
     = Inr [10, 30]"
    by (simp add: upper_level_def upper_char_def supplied_def level_value_def
        logging_level_names_def DEBUG_def WARNING_def)
  have "truthy (upper_level (PStr ''debug'')) \<longrightarrow> ''file'' \<in> fst ` set (handlers example_config)"
    by (simp add: example_config_def)
  moreover have "truthy (upper_level PNone) \<longrightarrow> ''console'' \<in> fst ` set (handlers example_config)"
    by (simp add: example_config_def)
  ultimately have "\<exists>cfg'. setup_log_levels example_config (PStr ''debug'') PNone = Inr cfg' \<and>
         root_level cfg' = Some (PInt (Min (set [10, 30])))"
    using inst pre vals by blast
  then have second: "root_level example_config_debug = Some (PInt (Min (set [10, 30])))"
    by (simp only: example_setup_levels sum.inject ex_simps simp_thms)
  from pre first vals second show ?thesis
    by (simp add: example_setup_levels)
qed

section \<open>Worker-side emitter setup: results\<close>




section \<open>Listener loop: results\<close>

lemma handed_append: "handed (xs @ ys) = handed xs @ handed ys"
  by (induction xs rule: handed.induct) simp_all

lemma delivered_append: "delivered (xs @ ys) = delivered xs @ delivered ys"
  by (induction xs rule: delivered.induct) simp_all

lemma handed_late_warnings: "handed (late_warnings xs) = []"
  by (induction xs) (simp_all add: late_warnings_def)

lemma drain_queue_open:
  assumes "items (log_queue st) = xs" "\<not> closed (log_queue st)"
  shows "drain_queue st =
           (None, st\<lparr>log_queue := (log_queue st)\<lparr>items := []\<rparr>,
                     trace := trace st @ late_warnings xs\<rparr>)"
  using assms
proof (induction xs arbitrary: st)
  case Nil
  then show ?case
    by (subst drain_queue.simps) (simp add: queue_get_def late_warnings_def)
next
  case (Cons x xs)
  let ?st = "fallback WARNING (RecordPastShutdown x)
               (st\<lparr>log_queue := (log_queue st)\<lparr>items := xs\<rparr>\<rparr>)"
  have step: "drain_queue st = drain_queue ?st"
    using Cons.prems by (subst drain_queue.simps) (simp add: queue_get_def)
  have "items (log_queue ?st) = xs" "\<not> closed (log_queue ?st)"
    using Cons.prems by (simp_all add: fallback_def)
  from Cons.IH [OF this] show ?case
    unfolding step by (simp add: fallback_def late_warnings_def)
qed

lemma clean_up_queue_open:
  assumes "items (log_queue st) = xs" "\<not> closed (log_queue st)" "has_close (log_queue st)"
  shows "clean_up_queue st =
           st\<lparr>log_queue := (log_queue st)\<lparr>items := [], closed := True, joined := True\<rparr>,
              trace := trace st @ late_warnings xs\<rparr>"
  using assms
  by (simp add: clean_up_queue_def drain_queue_open queue_close_def queue_join_thread_def)

lemma shut_down_open:
  assumes "items (log_queue st) = xs" "\<not> closed (log_queue st)" "has_close (log_queue st)"
    and "outer_exit_event st = Some b"
  shows "shut_down st =
           Inr (None,
             st\<lparr>log_queue := (log_queue st)\<lparr>items := [], closed := True, joined := True\<rparr>,
                outer_exit_event := Some True,
                trace := trace st @ [Fallback INFO ShuttingDown] @ late_warnings xs @
                           [Fallback INFO ShutDown],
                logging_shut_down := True\<rparr>)"
proof -
  let ?st1 = "fallback INFO ShuttingDown (st\<lparr>outer_exit_event := Some True\<rparr>)"
  have "clean_up_queue ?st1 =
          ?st1\<lparr>log_queue := (log_queue ?st1)\<lparr>items := [], closed := True, joined := True\<rparr>,
               trace := trace ?st1 @ late_warnings xs\<rparr>"
    using assms by (intro clean_up_queue_open) (simp_all add: fallback_def)
  then show ?thesis
    using assms by (simp add: shut_down_def event_set_def fallback_def Let_def)
qed


lemma handle_sentinel_open:
  assumes "items (log_queue st) = LOG_RECORD_SENTINEL # xs" "\<not> closed (log_queue st)"
    and "has_close (log_queue st)" "outer_exit_event st = Some b"
  shows "handle_queued_log_record dest st =
           Inr (None,
             st\<lparr>log_queue := (log_queue st)\<lparr>items := [], closed := True, joined := True\<rparr>,
                outer_exit_event := Some True,
                trace := trace st @ [Fallback INFO ShuttingDown] @ late_warnings xs @
                           [Fallback INFO ShutDown],
                logging_shut_down := True\<rparr>)"
proof -
  let ?st = "st\<lparr>log_queue := (log_queue st)\<lparr>items := xs\<rparr>\<rparr>"
  have "handle_queued_log_record dest st = shut_down ?st"
    using assms by (simp add: handle_queued_log_record_def queue_get_def)
  moreover have "shut_down ?st =
      Inr (None,
        ?st\<lparr>log_queue := (log_queue ?st)\<lparr>items := [], closed := True, joined := True\<rparr>,
            outer_exit_event := Some True,
            trace := trace ?st @ [Fallback INFO ShuttingDown] @ late_warnings xs @
                       [Fallback INFO ShutDown],
            logging_shut_down := True\<rparr>)"
    using assms by (intro shut_down_open) simp_all
  ultimately show ?thesis by simp
qed

lemma handle_item_open:
  assumes "items (log_queue st) = x # xs" "\<not> closed (log_queue st)"
    and "x \<noteq> LOG_RECORD_SENTINEL"
  shows "handle_queued_log_record dest st =
           Inr (Some x, dispatch dest x (st\<lparr>log_queue := (log_queue st)\<lparr>items := xs\<rparr>\<rparr>))"
  using assms by (simp add: handle_queued_log_record_def queue_get_def)

lemma dispatch_frame:
  "log_queue (dispatch dest x st) = log_queue st"
  "outer_exit_event (dispatch dest x st) = outer_exit_event st"
  "logging_shut_down (dispatch dest x st) = logging_shut_down st"
  by (simp_all add: dispatch_def fallback_def split: prod.splits option.splits)

lemma dispatch_record_handed:
  "handed (trace (dispatch dest (Record r) st)) = handed (trace st) @ [(name r, r)]"
  by (simp add: dispatch_def try_handle_def fallback_def handed_append
      split: option.splits)

lemma dispatch_record_ok:
  "dest (name r) r = None \<Longrightarrow>
     dispatch dest (Record r) st = st\<lparr>trace := trace st @ [Handle (name r) r None]\<rparr>"
  by (simp add: dispatch_def try_handle_def)

lemma dispatch_raises:
  "try_handle dest x = (evs, Some e) \<Longrightarrow>
     dispatch dest x st =
       st\<lparr>trace := trace st @ evs @
          [Fallback WARNING (LoggingRecord e x), Fallback INFO ErrorInfo,
           Fallback INFO (LogRecordInfo x)]\<rparr>"
  by (simp add: dispatch_def fallback_def)

lemma run_periodic_stops:
  "is_set (outer_exit_event st) \<Longrightarrow> 0 < fuel \<Longrightarrow>
     run_periodic fuel dest exit_event st = Some (Inr st)"
  by (cases fuel) simp_all

lemma run_periodic_step:
  assumes "\<not> is_set (outer_exit_event st)" "\<not> is_set exit_event"
    and "handle_queued_log_record dest st = Inr (r, st')"
  shows "run_periodic (Suc fuel) dest exit_event st = run_periodic fuel dest exit_event st'"
  using assms by simp

lemma run_periodic_records:
  assumes "items (log_queue st) = map Record rs @ [LOG_RECORD_SENTINEL]"
    and "\<not> closed (log_queue st)" "has_close (log_queue st)"
    and "outer_exit_event st = Some False" "\<not> is_set exit_event"
    and "length rs + 2 \<le> fuel"
  shows "\<exists>st'. run_periodic fuel dest exit_event st = Some (Inr st') \<and>
           handed (trace st') = handed (trace st) @ map (\<lambda>r. (name r, r)) rs \<and>
           outer_exit_event st' = Some True \<and>
           items (log_queue st') = [] \<and> closed (log_queue st') \<and>
           logging_shut_down st'"
  using assms
proof (induction rs arbitrary: st fuel)
  case Nil
  then obtain k where fuel: "fuel = Suc (Suc k)"
    by (metis add_2_eq_Suc le_Suc_ex list.size(3) add.left_neutral)
  let ?st' = "st\<lparr>log_queue := (log_queue st)\<lparr>items := [], closed := True, joined := True\<rparr>,
                outer_exit_event := Some True,
                trace := trace st @ [Fallback INFO ShuttingDown] @ late_warnings [] @
                           [Fallback INFO ShutDown],
                logging_shut_down := True\<rparr>"
  have h: "handle_queued_log_record dest st = Inr (None, ?st')"
    using Nil.prems by (intro handle_sentinel_open) simp_all
  have "run_periodic fuel dest exit_event st = run_periodic (Suc k) dest exit_event ?st'"
    unfolding fuel using Nil.prems h by (intro run_periodic_step) (simp_all add: is_set_def)
  also have "\<dots> = Some (Inr ?st')"
    by (intro run_periodic_stops) (simp_all add: is_set_def)
  finally show ?case
    by (simp add: handed_append late_warnings_def)
next
  case (Cons r rs)
  then obtain k where fuel: "fuel = Suc k" and k: "length rs + 2 \<le> k"
    by (cases fuel) simp_all
  let ?q = "(log_queue st)\<lparr>items := map Record rs @ [LOG_RECORD_SENTINEL]\<rparr>"
  let ?st1 = "dispatch dest (Record r) (st\<lparr>log_queue := ?q\<rparr>)"
  have h: "handle_queued_log_record dest st = Inr (Some (Record r), ?st1)"
    using Cons.prems by (intro handle_item_open) simp_all
  have step: "run_periodic fuel dest exit_event st = run_periodic k dest exit_event ?st1"
    unfolding fuel using Cons.prems h by (intro run_periodic_step) (simp_all add: is_set_def)
  have "\<exists>st'. run_periodic k dest exit_event ?st1 = Some (Inr st') \<and>
           handed (trace st') = handed (trace ?st1) @ map (\<lambda>r. (name r, r)) rs \<and>
           outer_exit_event st' = Some True \<and>
           items (log_queue st') = [] \<and> closed (log_queue st') \<and>
           logging_shut_down st'"
    using Cons.prems k by (intro Cons.IH) (simp_all add: dispatch_frame)
  then show ?case
    unfolding step by (simp add: dispatch_record_handed)
qed

text \<open>
  Claim C3. On a queue preloaded with the records \<open>R1..Rn\<close> followed by the sentinel
  (an open queue of the kind that can be closed), with the configurator returning
  normally and the caller's stop signal not set, the listener ends within \<open>n + 2\<close>
  rounds of the loop: it has handed \<open>R1..Rn\<close>, in the order they were enqueued, each to
  the logger named by the record's \<open>name\<close>, and it ends in the state Stopped, with the
  exit event set, the queue empty and closed, and the logging system shut down.
\<close>

theorem run_log_listener_delivers_in_order:
  assumes "items q = map Record rs @ [LOG_RECORD_SENTINEL]"
    and "\<not> closed q" "has_close q"
    and "\<not> is_set exit_event"
    and "length rs + 2 \<le> fuel"
  shows "\<exists>st'. run_log_listener fuel dest q None exit_event = Some (Inr st') \<and>
           handed (trace st') = map (\<lambda>r. (name r, r)) rs \<and>
           outer_exit_event st' = Some True \<and>
           items (log_queue st') = [] \<and> closed (log_queue st') \<and>
           logging_shut_down st'"
proof -
  let ?st = "fallback INFO Starting
               \<lparr>log_queue = q, outer_exit_event = Some False, trace = [],
                logging_shut_down = False\<rparr>"
  have "\<exists>st'. run_periodic fuel dest exit_event ?st = Some (Inr st') \<and>
           handed (trace st') = handed (trace ?st) @ map (\<lambda>r. (name r, r)) rs \<and>
           outer_exit_event st' = Some True \<and>
           items (log_queue st') = [] \<and> closed (log_queue st') \<and>
           logging_shut_down st'"
    using assms by (intro run_periodic_records) (simp_all add: fallback_def)
  then show ?thesis
    by (simp add: run_log_listener_def fallback_def)
qed


theorem run_log_listener_delivers_in_order_witness:
  "\<exists>st'. run_log_listener 4 no_failures
            (open_queue [Record example_record, Record other_record, LOG_RECORD_SENTINEL])
            None None = Some (Inr st') \<and>
         handed (trace st') =
           [(''brokkr.pipeline'', example_record), (''brokkr.sunsaver'', other_record)] \<and>
         outer_exit_event st' = Some True \<and>
         items (log_queue st') = [] \<and> closed (log_queue st') \<and> logging_shut_down st'"
  using run_log_listener_delivers_in_order
    [of "open_queue [Record example_record, Record other_record, LOG_RECORD_SENTINEL]"
        "[example_record, other_record]" None 4 no_failures]
  by (simp add: open_queue_def is_set_def example_record_def other_record_def)

lemma clean_up_queue_unclosable:
  assumes "items (log_queue st) = xs" "\<not> closed (log_queue st)" "\<not> has_close (log_queue st)"
  shows "clean_up_queue st =
           st\<lparr>log_queue := (log_queue st)\<lparr>items := []\<rparr>,
              trace := trace st @ late_warnings xs @
                [Fallback ERROR (CleaningUp AttributeError), Fallback INFO ErrorInfo]\<rparr>"
  using assms
  by (simp add: clean_up_queue_def drain_queue_open queue_close_def fallback_def)

lemma handle_sentinel_unclosable:
  assumes "items (log_queue st) = LOG_RECORD_SENTINEL # xs" "\<not> closed (log_queue st)"
    and "\<not> has_close (log_queue st)" "outer_exit_event st = Some b"
  shows "handle_queued_log_record dest st =
           Inr (None,
             st\<lparr>log_queue := (log_queue st)\<lparr>items := []\<rparr>,
                outer_exit_event := Some True,
                trace := trace st @ [Fallback INFO ShuttingDown] @ late_warnings xs @
                           [Fallback ERROR (CleaningUp AttributeError), Fallback INFO ErrorInfo,
                            Fallback INFO ShutDown],
                logging_shut_down := True\<rparr>)"
proof -
  let ?st = "st\<lparr>log_queue := (log_queue st)\<lparr>items := xs\<rparr>\<rparr>"
  let ?st1 = "fallback INFO ShuttingDown (?st\<lparr>outer_exit_event := Some True\<rparr>)"
  have "handle_queued_log_record dest st = shut_down ?st"
    using assms by (simp add: handle_queued_log_record_def queue_get_def)
  moreover have "clean_up_queue ?st1 =
          ?st1\<lparr>log_queue := (log_queue ?st1)\<lparr>items := []\<rparr>,
               trace := trace ?st1 @ late_warnings xs @
                 [Fallback ERROR (CleaningUp AttributeError), Fallback INFO ErrorInfo]\<rparr>"
    using assms by (intro clean_up_queue_unclosable) (simp_all add: fallback_def)
  ultimately show ?thesis
    using assms by (simp add: shut_down_def event_set_def fallback_def Let_def)
qed

text \<open>
  Claim C4. When the listener takes the sentinel from an open queue, every item still in
  the queue is reported through the listener's own logger as a warning, in queue order
  and with none left out; none of them is handed to a destination logger; the queue is
  left with nothing in it, and it is closed exactly when it is a queue that can be
  closed (otherwise the failure to close is logged and shutdown goes on).
\<close>

theorem late_records_reported:
  assumes "items (log_queue st) = LOG_RECORD_SENTINEL # late"
    and "\<not> closed (log_queue st)"
    and "outer_exit_event st = Some b"
  shows "\<exists>st'. handle_queued_log_record dest st = Inr (None, st') \<and>
           trace st' =
             trace st @ [Fallback INFO ShuttingDown] @ late_warnings late @
             (if has_close (log_queue st) then []
              else [Fallback ERROR (CleaningUp AttributeError), Fallback INFO ErrorInfo]) @
             [Fallback INFO ShutDown] \<and>
           handed (trace st') = handed (trace st) \<and>
           items (log_queue st') = [] \<and>
           closed (log_queue st') = has_close (log_queue st)"
proof (cases "has_close (log_queue st)")
  case True
  from handle_sentinel_open [OF assms(1,2) True assms(3), of dest] True assms(2)
  show ?thesis
    by (simp add: handed_append handed_late_warnings)
next
  case False
  from handle_sentinel_unclosable [OF assms(1,2) False assms(3), of dest] False assms(2)
  show ?thesis
    by (simp add: handed_append handed_late_warnings)
qed

theorem late_records_reported_witness:
  "\<exists>st'. handle_queued_log_record no_failures
            (running_state [LOG_RECORD_SENTINEL, Record example_record, Record other_record]
               (Some False))
            = Inr (None, st') \<and>
         trace st' =
           [Fallback INFO ShuttingDown,
            Fallback WARNING (RecordPastShutdown (Record example_record)),
            Fallback WARNING (RecordPastShutdown (Record other_record)),
            Fallback INFO ShutDown] \<and>
         handed (trace st') = [] \<and>
         items (log_queue st') = [] \<and> closed (log_queue st')"
  using late_records_reported
    [of "running_state [LOG_RECORD_SENTINEL, Record example_record, Record other_record]
           (Some False)"
        "[Record example_record, Record other_record]" False no_failures]
  by (simp add: running_state_def open_queue_def late_warnings_def)

lemma drain_queue_event:
  "outer_exit_event (snd (drain_queue st)) = outer_exit_event st"
proof (induction st rule: drain_queue.induct)
  case (1 st)
  show ?case
  proof (cases "queue_get (log_queue st)")
    case (Pair res q)
    show ?thesis
    proof (cases res)
      case (Inl e)
      with Pair show ?thesis
        by (subst drain_queue.simps) simp
    next
      case (Inr x)
      with Pair "1.IH" show ?thesis
        by (subst drain_queue.simps) (simp add: fallback_def)
    qed
  qed
qed

lemma clean_up_queue_event:
  "outer_exit_event (clean_up_queue st) = outer_exit_event st"
proof -
  obtain res st1 where d: "drain_queue st = (res, st1)"
    by (cases "drain_queue st")
  have "outer_exit_event st1 = outer_exit_event st"
    using drain_queue_event [of st] d by simp
  then show ?thesis
    by (simp add: clean_up_queue_def d fallback_def split: option.splits sum.splits)
qed

lemma shut_down_not_StopIteration: "shut_down st \<noteq> Inl StopIteration"
  by (cases "outer_exit_event st")
     (simp_all add: shut_down_def event_set_def Let_def fallback_def clean_up_queue_event)

text \<open>
  Claim C10. When the item taken from the queue is the sentinel and \<open>outer_exit_event\<close>
  is \<^verbatim>\<open>None\<close>, the call \<^verbatim>\<open>outer_exit_event.set()\<close> raises \<^verbatim>\<open>AttributeError\<close>, which
  leaves the function; and on no input at all does the function raise
  \<^verbatim>\<open>StopIteration\<close>: the branch behind \<^verbatim>\<open>if outer_exit_event is None\<close> is never taken.
\<close>

theorem sentinel_without_exit_event:
  "(items (log_queue st) = LOG_RECORD_SENTINEL # xs \<and> \<not> closed (log_queue st) \<and>
      outer_exit_event st = None \<longrightarrow>
        handle_queued_log_record dest st = Inl AttributeError) \<and>
   handle_queued_log_record dest st \<noteq> Inl StopIteration"
proof -
  have "handle_queued_log_record dest st \<noteq> Inl StopIteration"
    by (simp add: handle_queued_log_record_def shut_down_not_StopIteration
        split: prod.splits sum.splits)
  then show ?thesis
    by (simp add: handle_queued_log_record_def queue_get_def shut_down_def event_set_def)
qed

theorem sentinel_without_exit_event_witness:
  "handle_queued_log_record no_failures
     (running_state [LOG_RECORD_SENTINEL, Record example_record] None) = Inl AttributeError \<and>
   handle_queued_log_record no_failures
     (running_state [LOG_RECORD_SENTINEL, Record example_record] None) \<noteq> Inl StopIteration"
  using sentinel_without_exit_event
    [of "running_state [LOG_RECORD_SENTINEL, Record example_record] None"
        "[Record example_record]" no_failures]
  by (simp add: running_state_def open_queue_def)

text \<open>
  Claim C5. When handing an item to its destination raises (the destination fails on a
  record, or the item is not a record at all), the listener catches the exception, logs
  a warning naming the exception and the item and two informational lines through its
  own logger, and stays in Running: the exit event is untouched and the queue open. In
  particular, of a well-formed record, a failing item and a second well-formed record
  taken from the queue by three successive calls, both well-formed records are
  delivered, with the warning about the failing item between them.
\<close>

theorem dispatch_failure_is_survived:
  "(items (log_queue st) = x # xs \<and> \<not> closed (log_queue st) \<and>
      x \<noteq> LOG_RECORD_SENTINEL \<and> try_handle dest x = (evs, Some e) \<longrightarrow>
        handle_queued_log_record dest st =
          Inr (Some x,
            st\<lparr>log_queue := (log_queue st)\<lparr>items := xs\<rparr>,
               trace := trace st @ evs @
                 [Fallback WARNING (LoggingRecord e x), Fallback INFO ErrorInfo,
                  Fallback INFO (LogRecordInfo x)]\<rparr>)) \<and>
   (items (log_queue st) = Record r1 # x # Record r2 # xs \<and> \<not> closed (log_queue st) \<and>
      dest (name r1) r1 = None \<and> dest (name r2) r2 = None \<and>
      x \<noteq> LOG_RECORD_SENTINEL \<and> try_handle dest x = (evs, Some e) \<longrightarrow>
        (\<exists>st1 st2 st3.
           handle_queued_log_record dest st = Inr (Some (Record r1), st1) \<and>
           handle_queued_log_record dest st1 = Inr (Some x, st2) \<and>
           handle_queued_log_record dest st2 = Inr (Some (Record r2), st3) \<and>
           trace st3 =
             trace st @ [Handle (name r1) r1 None] @ evs @
             [Fallback WARNING (LoggingRecord e x), Fallback INFO ErrorInfo,
              Fallback INFO (LogRecordInfo x),
              Handle (name r2) r2 None] \<and>
           delivered (trace st3) = delivered (trace st) @ [(name r1, r1), (name r2, r2)] \<and>
           items (log_queue st3) = xs \<and> \<not> closed (log_queue st3) \<and>
           outer_exit_event st3 = outer_exit_event st \<and>
           logging_shut_down st3 = logging_shut_down st))"
proof (intro conjI impI)
  assume a: "items (log_queue st) = x # xs \<and> \<not> closed (log_queue st) \<and>
      x \<noteq> LOG_RECORD_SENTINEL \<and> try_handle dest x = (evs, Some e)"
  then have "handle_queued_log_record dest st =
      Inr (Some x, dispatch dest x (st\<lparr>log_queue := (log_queue st)\<lparr>items := xs\<rparr>\<rparr>))"
    by (intro handle_item_open) simp_all
  with a show "handle_queued_log_record dest st =
          Inr (Some x,
            st\<lparr>log_queue := (log_queue st)\<lparr>items := xs\<rparr>,
               trace := trace st @ evs @
                 [Fallback WARNING (LoggingRecord e x), Fallback INFO ErrorInfo,
                  Fallback INFO (LogRecordInfo x)]\<rparr>)"
    by (simp add: dispatch_raises)
next
  assume a: "items (log_queue st) = Record r1 # x # Record r2 # xs \<and>
      \<not> closed (log_queue st) \<and>
      dest (name r1) r1 = None \<and> dest (name r2) r2 = None \<and>
      x \<noteq> LOG_RECORD_SENTINEL \<and> try_handle dest x = (evs, Some e)"
  let ?bad = "[Fallback WARNING (LoggingRecord e x), Fallback INFO ErrorInfo,
                  Fallback INFO (LogRecordInfo x)]"
  let ?s1 = "st\<lparr>log_queue := (log_queue st)\<lparr>items := x # Record r2 # xs\<rparr>,
               trace := trace st @ [Handle (name r1) r1 None]\<rparr>"
  let ?s2 = "st\<lparr>log_queue := (log_queue st)\<lparr>items := Record r2 # xs\<rparr>,
               trace := trace st @ [Handle (name r1) r1 None] @ evs @ ?bad\<rparr>"
  let ?s3 = "st\<lparr>log_queue := (log_queue st)\<lparr>items := xs\<rparr>,
               trace := trace st @ [Handle (name r1) r1 None] @ evs @ ?bad @
                          [Handle (name r2) r2 None]\<rparr>"
  have h0: "handle_queued_log_record dest st = Inr (Some (Record r1), ?s1)"
    using a by (simp add: handle_item_open dispatch_record_ok)
  have h1: "handle_queued_log_record dest ?s1 = Inr (Some x, ?s2)"
    using a by (simp add: handle_item_open dispatch_raises)
  have h2: "handle_queued_log_record dest ?s2 = Inr (Some (Record r2), ?s3)"
    using a by (simp add: handle_item_open dispatch_record_ok)
  have none: "delivered evs = []"
    using a by (auto simp: try_handle_def split: item.splits)
  have "trace ?s3 =
             trace st @ [Handle (name r1) r1 None] @ evs @
             [Fallback WARNING (LoggingRecord e x), Fallback INFO ErrorInfo,
              Fallback INFO (LogRecordInfo x),
              Handle (name r2) r2 None] \<and>
           delivered (trace ?s3) = delivered (trace st) @ [(name r1, r1), (name r2, r2)] \<and>
           items (log_queue ?s3) = xs \<and> \<not> closed (log_queue ?s3) \<and>
           outer_exit_event ?s3 = outer_exit_event st \<and>
           logging_shut_down ?s3 = logging_shut_down st"
    using a none by (simp add: delivered_append)
  with h0 h1 h2 show "\<exists>st1 st2 st3.
           handle_queued_log_record dest st = Inr (Some (Record r1), st1) \<and>
           handle_queued_log_record dest st1 = Inr (Some x, st2) \<and>
           handle_queued_log_record dest st2 = Inr (Some (Record r2), st3) \<and>
           trace st3 =
             trace st @ [Handle (name r1) r1 None] @ evs @
             [Fallback WARNING (LoggingRecord e x), Fallback INFO ErrorInfo,
              Fallback INFO (LogRecordInfo x),
              Handle (name r2) r2 None] \<and>
           delivered (trace st3) = delivered (trace st) @ [(name r1, r1), (name r2, r2)] \<and>
           items (log_queue st3) = xs \<and> \<not> closed (log_queue st3) \<and>
           outer_exit_event st3 = outer_exit_event st \<and>
           logging_shut_down st3 = logging_shut_down st"
    by blast
qed

theorem dispatch_failure_is_survived_witness:
  "try_handle no_failures (NotARecord ''junk'') = ([], Some AttributeError) \<and>
   (\<exists>st1 st2 st3.
      handle_queued_log_record no_failures
        (running_state [Record example_record, NotARecord ''junk'', Record other_record]
           (Some False))
        = Inr (Some (Record example_record), st1) \<and>
      handle_queued_log_record no_failures st1 = Inr (Some (NotARecord ''junk''), st2) \<and>
      handle_queued_log_record no_failures st2 = Inr (Some (Record other_record), st3) \<and>
      trace st3 =
        [Handle ''brokkr.pipeline'' example_record None,
         Fallback WARNING (LoggingRecord AttributeError (NotARecord ''junk'')),
         Fallback INFO ErrorInfo,
         Fallback INFO (LogRecordInfo (NotARecord ''junk'')),
         Handle ''brokkr.sunsaver'' other_record None] \<and>
      delivered (trace st3) =
        [(''brokkr.pipeline'', example_record), (''brokkr.sunsaver'', other_record)] \<and>
      outer_exit_event st3 = Some False \<and> \<not> closed (log_queue st3))"
proof -
  let ?st = "running_state [Record example_record, NotARecord ''junk'', Record other_record]
               (Some False)"
  have bad: "try_handle no_failures (NotARecord ''junk'') = ([], Some AttributeError)"
    by (simp add: try_handle_def)
  have pre: "items (log_queue ?st) =
        Record example_record # NotARecord ''junk'' # Record other_record # [] \<and>
      \<not> closed (log_queue ?st) \<and>
      no_failures (name example_record) example_record = None \<and>
      no_failures (name other_record) other_record = None \<and>
      NotARecord ''junk'' \<noteq> LOG_RECORD_SENTINEL \<and>
      try_handle no_failures (NotARecord ''junk'') = ([], Some AttributeError)"
    using bad by (simp add: running_state_def open_queue_def no_failures_def)
  from dispatch_failure_is_survived
         [where st = ?st and ?r1.0 = example_record and x = "NotARecord ''junk''"
            and ?r2.0 = other_record and xs = "[]" and dest = no_failures and evs = "[]"
            and e = AttributeError] pre
  obtain st1 st2 st3 where steps:
      "handle_queued_log_record no_failures ?st = Inr (Some (Record example_record), st1)"
      "handle_queued_log_record no_failures st1 = Inr (Some (NotARecord ''junk''), st2)"
      "handle_queued_log_record no_failures st2 = Inr (Some (Record other_record), st3)"
    and tr: "trace st3 =
        trace ?st @ [Handle (name example_record) example_record None] @ [] @
        [Fallback WARNING (LoggingRecord AttributeError (NotARecord ''junk'')),
         Fallback INFO ErrorInfo,
         Fallback INFO (LogRecordInfo (NotARecord ''junk'')),
         Handle (name other_record) other_record None]"
    and dl: "delivered (trace st3) =
        delivered (trace ?st) @
          [(name example_record, example_record), (name other_record, other_record)]"
    and rest: "outer_exit_event st3 = outer_exit_event ?st" "\<not> closed (log_queue st3)"
    by blast
  have "trace st3 =
        [Handle ''brokkr.pipeline'' example_record None,
         Fallback WARNING (LoggingRecord AttributeError (NotARecord ''junk'')),
         Fallback INFO ErrorInfo,
         Fallback INFO (LogRecordInfo (NotARecord ''junk'')),
         Handle ''brokkr.sunsaver'' other_record None]"
    using tr by (simp add: running_state_def example_record_def other_record_def)
  moreover have "delivered (trace st3) =
        [(''brokkr.pipeline'', example_record), (''brokkr.sunsaver'', other_record)]"
    using dl by (simp add: running_state_def example_record_def other_record_def)
  moreover have "outer_exit_event st3 = Some False"
    using rest by (simp add: running_state_def)
  ultimately show ?thesis
    using bad steps rest by blast
qed

end
